theory Spec2Isabelle
  imports Main "HOL-Library.Char_ord" "HOL-Library.List_Lexorder" "HOL-Library.Product_Lexorder"
begin

section \<open>Package version specifiers (yunohost/utils/packages.py)\<close>

text \<open>
  The module defines two classes, \<open>Specifier\<close> and \<open>SpecifierSet\<close>. Strings are Python 2
  byte strings, modelled as \<open>string\<close>. The function \<open>version_compare\<close> is used by the module
  but defined nowhere in it: every operation that calls it takes the comparator as its first
  argument \<open>cmp\<close>, a function from two version strings to an integer whose sign is read.
\<close>

subsection \<open>Errors and Python values\<close>

datatype error = InvalidSpecifier | KeyError | IndexError | TypeError

text \<open>A method either returns a value or the singleton \<open>NotImplemented\<close>.\<close>

datatype 'a ret = NotImplemented | Ret 'a

text \<open>The tuple \<open>_spec = (relation, version)\<close> of a \<open>Specifier\<close>.\<close>

type_synonym specifier = "string \<times> string"

text \<open>The frozenset \<open>_specs\<close> of a \<open>SpecifierSet\<close>.\<close>

type_synonym specifier_set = "specifier set"

text \<open>
  What a caller may pass where the code tests \<open>isinstance\<close>: a string, a \<open>Specifier\<close>,
  a \<open>SpecifierSet\<close>, or an object of another type.
\<close>

datatype operand = Str string | Spec specifier | SSet specifier_set | Other

text \<open>The argument of \<open>SpecifierSet.__init__\<close>: a string or a sequence of operands.\<close>

datatype specifiers_arg = SpecString string | SpecSeq "operand list"

definition relation :: "specifier \<Rightarrow> string" where
  "relation s = fst s"

definition version :: "specifier \<Rightarrow> string" where
  "version s = snd s"

subsection \<open>String helpers\<close>

text \<open>
  \<open>\s\<close> of a byte pattern and \<open>str.strip()\<close> agree on the whitespace characters:
  space, tab, line feed, carriage return, form feed and vertical tab.
\<close>

definition is_space :: "char \<Rightarrow> bool" where
  "is_space c \<longleftrightarrow> c = CHR '' '' \<or> c = CHR 0x09 \<or> c = CHR 0x0A \<or> c = CHR 0x0D
     \<or> c = CHR 0x0C \<or> c = CHR 0x0B"

definition strip :: "string \<Rightarrow> string" where
  "strip s = rev (dropWhile is_space (rev (dropWhile is_space s)))"

text \<open>\<open>s.split(",")\<close>: always at least one piece; the pieces hold no separator.\<close>

fun split :: "char \<Rightarrow> string \<Rightarrow> string list" where
  "split sep [] = [[]]"
| "split sep (c # cs) =
     (if c = sep then [] # split sep cs
      else (case split sep cs of
              [] \<Rightarrow> [[c]]
            | p # ps \<Rightarrow> (c # p) # ps))"

text \<open>\<open>",".join(xs)\<close>.\<close>

fun join :: "string \<Rightarrow> string list \<Rightarrow> string" where
  "join sep [] = []"
| "join sep [x] = x"
| "join sep (x # y # ys) = x @ sep @ join sep (y # ys)"

text \<open>Indexing a string, \<open>s[i]\<close>, raises \<open>IndexError\<close> out of range.\<close>

definition char_at :: "string \<Rightarrow> nat \<Rightarrow> error + char" where
  "char_at s i = (if i < length s then Inr (s ! i) else Inl IndexError)"

subsection \<open>The regular expression of \<open>Specifier\<close>\<close>

text \<open>
  \<^verbatim>\<open>^\s*(?P<relation>(<<|<=|=|>=|>>))\s*(?P<version>[^,;\s)]*)\s*$\<close>

  The alternatives of the relation group exclude one another on the first two characters, and
  each \<open>\s*\<close> is followed by something that is no whitespace or by the end of the input, so the
  greedy left-to-right scan below finds the match whenever there is one, with the same groups.
\<close>

definition version_char :: "char \<Rightarrow> bool" where
  "version_char c \<longleftrightarrow> c \<noteq> CHR '','' \<and> c \<noteq> CHR '';'' \<and> \<not> is_space c \<and> c \<noteq> CHR '')''"

fun match_relation :: "string \<Rightarrow> (string \<times> string) option" where
  "match_relation s =
     (if take 2 s = ''<<'' then Some (''<<'', drop 2 s)
      else if take 2 s = ''<='' then Some (''<='', drop 2 s)
      else if take 1 s = ''='' then Some (''='', drop 1 s)
      else if take 2 s = ''>='' then Some (''>='', drop 2 s)
      else if take 2 s = ''>>'' then Some (''>>'', drop 2 s)
      else None)"

definition regex_search :: "string \<Rightarrow> (string \<times> string) option" where
  "regex_search spec =
     (case match_relation (dropWhile is_space spec) of
        None \<Rightarrow> None
      | Some (rel, rest) \<Rightarrow>
          (let s = dropWhile is_space rest;
               ver = takeWhile version_char s;
               tail = dropWhile version_char s
           in if list_all is_space tail then Some (rel, ver) else None))"

subsection \<open>Specifier\<close>

text \<open>
  \<open>Specifier.__init__\<close>. An argument that is neither a string nor a \<open>Specifier\<close> makes
  \<open>__init__\<close> return \<open>NotImplemented\<close>, which Python turns into a \<open>TypeError\<close>.
\<close>

fun Specifier_init :: "operand \<Rightarrow> error + specifier" where
  "Specifier_init (Str spec) =
     (case regex_search spec of
        None \<Rightarrow> Inl InvalidSpecifier
      | Some (rel, ver) \<Rightarrow> Inr (strip rel, strip ver))"
| "Specifier_init (Spec spec) = Inr spec"
| "Specifier_init _ = Inl TypeError"

definition Specifier_str :: "specifier \<Rightarrow> string" where
  "Specifier_str s = relation s @ version s"

text \<open>
  The prologue shared by \<open>__eq__\<close>, \<open>__ne__\<close>, \<open>intersection\<close> and \<open>union\<close>: a string is
  parsed, and a parse failure is caught and answered with \<open>NotImplemented\<close>; an object that
  is no \<open>Specifier\<close> is answered with \<open>NotImplemented\<close> too.
\<close>

fun coerce_other :: "operand \<Rightarrow> error + specifier ret" where
  "coerce_other (Str s) =
     (case Specifier_init (Str s) of
        Inl InvalidSpecifier \<Rightarrow> Inr NotImplemented
      | Inl e \<Rightarrow> Inl e
      | Inr other \<Rightarrow> Inr (Ret other))"
| "coerce_other (Spec other) = Inr (Ret other)"
| "coerce_other _ = Inr NotImplemented"

definition Specifier_eq :: "specifier \<Rightarrow> operand \<Rightarrow> error + bool ret" where
  "Specifier_eq self other =
     (case coerce_other other of
        Inl e \<Rightarrow> Inl e
      | Inr NotImplemented \<Rightarrow> Inr NotImplemented
      | Inr (Ret other') \<Rightarrow> Inr (Ret (self = other')))"

definition Specifier_ne :: "specifier \<Rightarrow> operand \<Rightarrow> error + bool ret" where
  "Specifier_ne self other =
     (case coerce_other other of
        Inl e \<Rightarrow> Inl e
      | Inr NotImplemented \<Rightarrow> Inr NotImplemented
      | Inr (Ret other') \<Rightarrow> Inr (Ret (self \<noteq> other')))"

text \<open>The five comparison methods, over the comparator \<open>version_compare\<close>.\<close>

definition compare_lower_than :: "(string \<Rightarrow> string \<Rightarrow> int) \<Rightarrow> string \<Rightarrow> string \<Rightarrow> bool" where
  "compare_lower_than cmp v spec \<longleftrightarrow> cmp v spec < 0"

definition compare_lower_or_equal_than :: "(string \<Rightarrow> string \<Rightarrow> int) \<Rightarrow> string \<Rightarrow> string \<Rightarrow> bool" where
  "compare_lower_or_equal_than cmp v spec \<longleftrightarrow> cmp v spec \<le> 0"

definition compare_equal :: "(string \<Rightarrow> string \<Rightarrow> int) \<Rightarrow> string \<Rightarrow> string \<Rightarrow> bool" where
  "compare_equal cmp v spec \<longleftrightarrow> cmp v spec = 0"

definition compare_greater_or_equal_than :: "(string \<Rightarrow> string \<Rightarrow> int) \<Rightarrow> string \<Rightarrow> string \<Rightarrow> bool" where
  "compare_greater_or_equal_than cmp v spec \<longleftrightarrow> cmp v spec \<ge> 0"

definition compare_greater_than :: "(string \<Rightarrow> string \<Rightarrow> int) \<Rightarrow> string \<Rightarrow> string \<Rightarrow> bool" where
  "compare_greater_than cmp v spec \<longleftrightarrow> cmp v spec > 0"

text \<open>
  \<open>_get_relation\<close>: the lookup \<open>_relations[op]\<close> raises \<open>KeyError\<close> for a key that is not one
  of the five; the name found selects the comparison method.
\<close>

definition get_relation ::
  "(string \<Rightarrow> string \<Rightarrow> int) \<Rightarrow> string \<Rightarrow> error + (string \<Rightarrow> string \<Rightarrow> bool)" where
  "get_relation cmp op =
     (if op = ''<<'' then Inr (compare_lower_than cmp)
      else if op = ''<='' then Inr (compare_lower_or_equal_than cmp)
      else if op = ''='' then Inr (compare_equal cmp)
      else if op = ''>='' then Inr (compare_greater_or_equal_than cmp)
      else if op = ''>>'' then Inr (compare_greater_than cmp)
      else Inl KeyError)"

text \<open>\<open>Specifier.contains\<close>, which \<open>item in specifier\<close> calls as well.\<close>

definition Specifier_contains ::
  "(string \<Rightarrow> string \<Rightarrow> int) \<Rightarrow> specifier \<Rightarrow> string \<Rightarrow> error + bool" where
  "Specifier_contains cmp self item =
     (case get_relation cmp (relation self) of
        Inl e \<Rightarrow> Inl e
      | Inr f \<Rightarrow> Inr (f item (version self)))"

text \<open>Sequencing of computations that may raise.\<close>

definition and_then :: "error + 'a \<Rightarrow> ('a \<Rightarrow> error + 'b) \<Rightarrow> error + 'b" where
  "and_then m f = (case m of Inl e \<Rightarrow> Inl e | Inr x \<Rightarrow> f x)"

subsection \<open>SpecifierSet construction\<close>

text \<open>The loop \<open>for specifier in specifiers: parsed.add(Specifier(specifier))\<close>.\<close>

fun parse_each :: "operand list \<Rightarrow> specifier set \<Rightarrow> error + specifier set" where
  "parse_each [] parsed = Inr parsed"
| "parse_each (x # xs) parsed =
     (case Specifier_init x of
        Inl e \<Rightarrow> Inl e
      | Inr s \<Rightarrow> parse_each xs (insert s parsed))"

fun SpecifierSet_init :: "specifiers_arg \<Rightarrow> error + specifier_set" where
  "SpecifierSet_init (SpecString specifiers) =
     parse_each (map (\<lambda>s. Str (strip s))
                   (filter (\<lambda>s. strip s \<noteq> []) (split CHR '','' specifiers))) {}"
| "SpecifierSet_init (SpecSeq specifiers) = parse_each specifiers {}"

subsection \<open>Intersection and union of two specifiers\<close>

text \<open>
  The body of \<open>Specifier.intersection\<close> once \<open>other\<close> is a \<open>Specifier\<close>. The variable
  \<open>result\<close> is a list or \<open>None\<close>; it starts as the empty list.
\<close>

definition intersection_result ::
  "(string \<Rightarrow> string \<Rightarrow> int) \<Rightarrow> specifier \<Rightarrow> specifier \<Rightarrow> error + specifier list option" where
  "intersection_result cmp self other =
     (let rel1 = relation self; v1 = version self;
          rel2 = relation other; v2 = version other
      in if other = self then Inr (Some [other])
         else if rel1 = ''='' then
           and_then (Specifier_contains cmp other v1)
             (\<lambda>b. Inr (if b then Some [self] else None))
         else if rel2 = ''='' then
           and_then (Specifier_contains cmp self v2)
             (\<lambda>b. Inr (if b then Some [other] else None))
         else if v1 = v2 then
           and_then (char_at rel1 1)
             (\<lambda>c. Inr (Some [if c = CHR ''='' then other else self]))
         else
           and_then (Specifier_contains cmp self v2) (\<lambda>b1.
           and_then (if b1 then Inr True else Specifier_contains cmp other v1) (\<lambda>b.
             if b then
               (let is_self_greater = (cmp v1 v2 > 0) in
                and_then (char_at rel1 0) (\<lambda>c1.
                and_then (char_at rel2 0) (\<lambda>c2.
                  if c1 = c2 then
                    and_then (char_at rel1 0) (\<lambda>c.
                      if c = CHR ''>'' then
                        Inr (Some [if is_self_greater then self else other])
                      else
                        Inr (Some [if is_self_greater then other else self]))
                  else Inr (Some [self, other]))))
             else Inr (Some []))))"

definition Specifier_intersection ::
  "(string \<Rightarrow> string \<Rightarrow> int) \<Rightarrow> specifier \<Rightarrow> operand \<Rightarrow> error + specifier_set ret" where
  "Specifier_intersection cmp self other =
     (case coerce_other other of
        Inl e \<Rightarrow> Inl e
      | Inr NotImplemented \<Rightarrow> Inr NotImplemented
      | Inr (Ret other') \<Rightarrow>
          and_then (intersection_result cmp self other') (\<lambda>result.
          and_then (SpecifierSet_init
                      (case result of
                         Some r \<Rightarrow> SpecSeq (map Spec r)
                       | None \<Rightarrow> SpecString []))
            (\<lambda>s. Inr (Ret s))))"

definition Specifier_union :: "specifier \<Rightarrow> operand \<Rightarrow> error + specifier_set ret" where
  "Specifier_union self other =
     (case coerce_other other of
        Inl e \<Rightarrow> Inl e
      | Inr NotImplemented \<Rightarrow> Inr NotImplemented
      | Inr (Ret other') \<Rightarrow>
          and_then (SpecifierSet_init (SpecSeq [Spec self, Spec other'])) (\<lambda>s. Inr (Ret s)))"

subsection \<open>SpecifierSet\<close>

text \<open>
  Iterating over a Python set visits its members once each, in an order the program does not
  control. Every operation that iterates takes the order as a function \<open>ord\<close> from a set to
  the list in which its members are visited; \<open>enumerates ord\<close> says that it is such an order.
\<close>

definition enumerates :: "(specifier set \<Rightarrow> specifier list) \<Rightarrow> bool" where
  "enumerates ord \<longleftrightarrow> (\<forall>S. finite S \<longrightarrow> set (ord S) = S \<and> distinct (ord S))"

text \<open>\<open>SpecifierSet.__str__\<close>: \<open>",".join(sorted(str(s) for s in self._specs))\<close>.\<close>

definition SpecifierSet_str :: "(specifier set \<Rightarrow> specifier list) \<Rightarrow> specifier_set \<Rightarrow> string" where
  "SpecifierSet_str ord self = join '','' (sort (map Specifier_str (ord self)))"

text \<open>
  The prologue of \<open>SpecifierSet.__eq__\<close> and \<open>__ne__\<close>: a string is parsed with no handler
  around it, a \<open>Specifier\<close> goes through its string form.
\<close>

fun coerce_set :: "operand \<Rightarrow> error + specifier_set ret" where
  "coerce_set (Str s) = and_then (SpecifierSet_init (SpecString s)) (\<lambda>t. Inr (Ret t))"
| "coerce_set (Spec s) =
     and_then (SpecifierSet_init (SpecString (Specifier_str s))) (\<lambda>t. Inr (Ret t))"
| "coerce_set (SSet t) = Inr (Ret t)"
| "coerce_set Other = Inr NotImplemented"

definition SpecifierSet_eq :: "specifier_set \<Rightarrow> operand \<Rightarrow> error + bool ret" where
  "SpecifierSet_eq self other =
     (case coerce_set other of
        Inl e \<Rightarrow> Inl e
      | Inr NotImplemented \<Rightarrow> Inr NotImplemented
      | Inr (Ret other') \<Rightarrow> Inr (Ret (self = other')))"

definition SpecifierSet_ne :: "specifier_set \<Rightarrow> operand \<Rightarrow> error + bool ret" where
  "SpecifierSet_ne self other =
     (case coerce_set other of
        Inl e \<Rightarrow> Inl e
      | Inr NotImplemented \<Rightarrow> Inr NotImplemented
      | Inr (Ret other') \<Rightarrow> Inr (Ret (self \<noteq> other')))"

text \<open>
  The prologue of \<open>SpecifierSet.intersection\<close> and \<open>union\<close>: a string is parsed with no
  handler, anything that is no \<open>SpecifierSet\<close> (a \<open>Specifier\<close> too) gives \<open>NotImplemented\<close>.
\<close>

fun coerce_set_strict :: "operand \<Rightarrow> error + specifier_set ret" where
  "coerce_set_strict (Str s) = and_then (SpecifierSet_init (SpecString s)) (\<lambda>t. Inr (Ret t))"
| "coerce_set_strict (SSet t) = Inr (Ret t)"
| "coerce_set_strict _ = Inr NotImplemented"

text \<open>
  \<open>spec & specifier\<close> calls \<open>Specifier.__and__\<close>, that is \<open>intersection\<close>; an answer of
  \<open>NotImplemented\<close> would make the operator raise \<open>TypeError\<close>.
\<close>

definition Specifier_and ::
  "(string \<Rightarrow> string \<Rightarrow> int) \<Rightarrow> specifier \<Rightarrow> specifier \<Rightarrow> error + specifier_set" where
  "Specifier_and cmp spec specifier =
     and_then (Specifier_intersection cmp spec (Spec specifier))
       (\<lambda>r. case r of NotImplemented \<Rightarrow> Inl TypeError | Ret inter' \<Rightarrow> Inr inter')"

text \<open>
  The inner loop \<open>for spec in intersection\<close>: an empty \<open>inter\<close> clears \<open>parsed\<close> and leaves
  the loop.
\<close>

fun inner_loop ::
  "(string \<Rightarrow> string \<Rightarrow> int) \<Rightarrow> specifier list \<Rightarrow> specifier \<Rightarrow> specifier set
     \<Rightarrow> error + specifier set" where
  "inner_loop cmp [] specifier parsed = Inr parsed"
| "inner_loop cmp (spec # rest) specifier parsed =
     and_then (Specifier_and cmp spec specifier) (\<lambda>inter'.
       if inter' = {} then Inr {}
       else inner_loop cmp rest specifier (parsed \<union> inter'))"

text \<open>
  The outer loop \<open>for specifier in specifiers\<close>. \<open>intersection\<close> is the one-element list
  holding the popped member at first and the set \<open>parsed\<close> afterwards, iterated in its order;
  an empty \<open>parsed\<close> leaves the loop.
\<close>

fun outer_loop ::
  "(string \<Rightarrow> string \<Rightarrow> int) \<Rightarrow> (specifier set \<Rightarrow> specifier list) \<Rightarrow> specifier list
     \<Rightarrow> specifier list \<Rightarrow> error + specifier list" where
  "outer_loop cmp ord [] intersection = Inr intersection"
| "outer_loop cmp ord (specifier # rest) intersection =
     and_then (inner_loop cmp intersection specifier {}) (\<lambda>parsed.
       if parsed = {} then Inr []
       else outer_loop cmp ord rest (ord parsed))"

text \<open>
  \<open>SpecifierSet.intersection\<close>. The pool \<open>self._specs | other._specs\<close> is visited in its
  order: \<open>pop()\<close> takes one member out, the loop runs over the others.
\<close>

definition SpecifierSet_intersection ::
  "(string \<Rightarrow> string \<Rightarrow> int) \<Rightarrow> (specifier set \<Rightarrow> specifier list) \<Rightarrow> specifier_set
     \<Rightarrow> operand \<Rightarrow> error + specifier_set ret" where
  "SpecifierSet_intersection cmp ord self other =
     (case coerce_set_strict other of
        Inl e \<Rightarrow> Inl e
      | Inr NotImplemented \<Rightarrow> Inr NotImplemented
      | Inr (Ret other') \<Rightarrow>
          and_then
            (case ord (self \<union> other') of
               [] \<Rightarrow> Inr []
             | seed # specifiers \<Rightarrow> outer_loop cmp ord specifiers [seed])
            (\<lambda>intersection.
               and_then (SpecifierSet_init (SpecSeq (map Spec intersection)))
                 (\<lambda>s. Inr (Ret s))))"

definition SpecifierSet_union :: "specifier_set \<Rightarrow> operand \<Rightarrow> error + specifier_set ret" where
  "SpecifierSet_union self other =
     (case coerce_set_strict other of
        Inl e \<Rightarrow> Inl e
      | Inr NotImplemented \<Rightarrow> Inr NotImplemented
      | Inr (Ret other') \<Rightarrow>
          and_then (SpecifierSet_init (SpecSeq []))
            (\<lambda>specifiers. Inr (Ret (self \<union> other'))))"

text \<open>
  \<open>SpecifierSet.contains\<close>: \<open>all\<close> stops at the first member that does not contain the item.
\<close>

fun all_contain ::
  "(string \<Rightarrow> string \<Rightarrow> int) \<Rightarrow> specifier list \<Rightarrow> string \<Rightarrow> error + bool" where
  "all_contain cmp [] item = Inr True"
| "all_contain cmp (s # rest) item =
     and_then (Specifier_contains cmp s item) (\<lambda>b.
       if b then all_contain cmp rest item else Inr False)"

definition SpecifierSet_contains ::
  "(string \<Rightarrow> string \<Rightarrow> int) \<Rightarrow> (specifier set \<Rightarrow> specifier list) \<Rightarrow> specifier_set
     \<Rightarrow> string \<Rightarrow> error + bool" where
  "SpecifierSet_contains cmp ord self item = all_contain cmp (ord self) item"

subsection \<open>Well-formed values\<close>

text \<open>
  What the regular expression guarantees of a parsed \<open>Specifier\<close>: the relation is one of
  the five symbols and the version has none of the characters the pattern excludes.
\<close>

definition valid_relation :: "string \<Rightarrow> bool" where
  "valid_relation r \<longleftrightarrow> r = ''<<'' \<or> r = ''<='' \<or> r = ''='' \<or> r = ''>='' \<or> r = ''>>''"

definition wf_specifier :: "specifier \<Rightarrow> bool" where
  "wf_specifier s \<longleftrightarrow> valid_relation (relation s) \<and> list_all version_char (version s)"

definition wf_set :: "specifier_set \<Rightarrow> bool" where
  "wf_set S \<longleftrightarrow> finite S \<and> (\<forall>s \<in> S. wf_specifier s)"

text \<open>
  What the pattern says, as a predicate: the input is whitespace, one of the five relations,
  whitespace, a run of characters of the version class, whitespace. The lemma
  \<open>regex_search_iff\<close> below shows that the scan returns exactly these groups.
\<close>

definition regex_matches :: "string \<Rightarrow> string \<Rightarrow> string \<Rightarrow> bool" where
  "regex_matches spec rel ver \<longleftrightarrow>
     (\<exists>ws1 ws2 ws3.
        spec = ws1 @ rel @ ws2 @ ver @ ws3 \<and>
        list_all is_space ws1 \<and> valid_relation rel \<and> list_all is_space ws2 \<and>
        list_all version_char ver \<and> list_all is_space ws3)"

text \<open>
  A sample comparator, the bytewise order of the two strings, to run the operations on
  concrete inputs. It is not the comparison of Debian versions.
\<close>

definition bytewise_compare :: "string \<Rightarrow> string \<Rightarrow> int" where
  "bytewise_compare a b = (if a < b then - 1 else if a = b then 0 else 1)"

text \<open>
  A second sample comparator, for versions made of numbers separated by dots: each number is
  compared by its value, as the Debian order compares a run of digits, so that two different
  strings such as \<open>1.0\<close> and \<open>1.00\<close> tie.
\<close>

definition digits_value :: "string \<Rightarrow> nat" where
  "digits_value s = foldl (\<lambda>n c. 10 * n + (of_char c - 48)) 0 s"

definition dotted_compare :: "string \<Rightarrow> string \<Rightarrow> int" where
  "dotted_compare a b =
     (let xs = map digits_value (split CHR ''.'' a);
          ys = map digits_value (split CHR ''.'' b)
      in if xs < ys then - 1 else if xs = ys then 0 else 1)"

section \<open>Properties\<close>

subsection \<open>Building a set from specifiers\<close>

lemma parse_each_Spec: "parse_each (map Spec r) parsed = Inr (parsed \<union> set r)"
  by (induction r arbitrary: parsed) auto

lemma init_of_specifiers: "SpecifierSet_init (SpecSeq (map Spec r)) = Inr (set r)"
  by (simp add: parse_each_Spec)

lemma init_of_empty_string: "SpecifierSet_init (SpecString []) = Inr {}"
  by (simp add: strip_def)

subsection \<open>Containment, relation by relation\<close>

lemma contains_simps:
  "Specifier_contains cmp (''<<'', w) v = Inr (cmp v w < 0)"
  "Specifier_contains cmp (''<='', w) v = Inr (cmp v w \<le> 0)"
  "Specifier_contains cmp (''='', w) v = Inr (cmp v w = 0)"
  "Specifier_contains cmp (''>='', w) v = Inr (cmp v w \<ge> 0)"
  "Specifier_contains cmp (''>>'', w) v = Inr (cmp v w > 0)"
  by (simp_all add: Specifier_contains_def get_relation_def relation_def version_def
      compare_lower_than_def compare_lower_or_equal_than_def compare_equal_def
      compare_greater_or_equal_than_def compare_greater_than_def)

lemma valid_relation_cases:
  assumes "valid_relation (relation s)"
  obtains w where "s = (''<<'', w)" | w where "s = (''<='', w)" | w where "s = (''='', w)"
    | w where "s = (''>='', w)" | w where "s = (''>>'', w)"
  using assms by (cases s) (auto simp: valid_relation_def relation_def)

lemma contains_total:
  assumes "valid_relation (relation s)"
  shows "\<exists>b. Specifier_contains cmp s v = Inr b"
  using assms by (cases rule: valid_relation_cases) (simp_all add: contains_simps)

subsection \<open>The intersection of two specifiers\<close>

lemma intersection_of_specifier:
  "Specifier_intersection cmp self (Spec other) =
     and_then (intersection_result cmp self other)
       (\<lambda>result. Inr (Ret (case result of None \<Rightarrow> {} | Some r \<Rightarrow> set r)))"
  by (simp add: Specifier_intersection_def and_then_def init_of_specifiers init_of_empty_string
      del: SpecifierSet_init.simps split: sum.splits option.splits)

lemmas result_defs = intersection_of_specifier intersection_result_def contains_simps
  and_then_def char_at_def relation_def version_def Let_def

lemma same_version_result:
  assumes "valid_relation (relation self)" and "valid_relation (relation other)"
    and "self \<noteq> other" and "version self = version other"
    and "relation self \<noteq> ''=''" and "relation other \<noteq> ''=''"
  shows "Specifier_intersection cmp self (Spec other) =
           Inr (Ret {if relation self = ''<='' \<or> relation self = ''>='' then other else self})"
  using assms(1)
proof (cases rule: valid_relation_cases)
  case (1 w) with assms(2-) show ?thesis
    by (cases rule: valid_relation_cases[OF assms(2)]) (simp_all add: result_defs)
next
  case (2 w) with assms(2-) show ?thesis
    by (cases rule: valid_relation_cases[OF assms(2)]) (simp_all add: result_defs)
next
  case (3 w) with assms(2-) show ?thesis by (simp add: relation_def)
next
  case (4 w) with assms(2-) show ?thesis
    by (cases rule: valid_relation_cases[OF assms(2)]) (simp_all add: result_defs)
next
  case (5 w) with assms(2-) show ?thesis
    by (cases rule: valid_relation_cases[OF assms(2)]) (simp_all add: result_defs)
qed

lemma equal_self_result:
  assumes "valid_relation (relation other)" and "self \<noteq> other" and "relation self = ''=''"
  shows "\<exists>b. Specifier_contains cmp other (version self) = Inr b \<and>
           Specifier_intersection cmp self (Spec other) = Inr (Ret (if b then {self} else {}))"
  using assms(1)
  by (cases rule: valid_relation_cases; cases self) (use assms(2-) in \<open>simp_all add: result_defs\<close>)

lemma equal_other_result:
  assumes "valid_relation (relation self)" and "self \<noteq> other"
    and "relation self \<noteq> ''=''" and "relation other = ''=''"
  shows "\<exists>b. Specifier_contains cmp self (version other) = Inr b \<and>
           Specifier_intersection cmp self (Spec other) = Inr (Ret (if b then {other} else {}))"
  using assms(1)
  by (cases rule: valid_relation_cases; cases other) (use assms(2-) in \<open>simp_all add: result_defs\<close>)

text \<open>
  C5. Two different specifiers with the same version string, neither with relation \<open>=\<close>: the
  intersection is a one-member set. It holds the strict operand (\<open><<\<close> or \<open>>>\<close>) when exactly
  one of the two relations is strict; when both are inclusive (\<open><=\<close>, \<open>>=\<close>) or both strict, it
  holds \<open>other\<close> if the relation of \<open>self\<close> is inclusive and \<open>self\<close> otherwise. In particular
  \<open><=2.2\<close> intersected with \<open><<2.2\<close> is the set of \<open><<2.2\<close> alone.
\<close>

theorem same_version_intersection:
  assumes "valid_relation (relation self)" and "valid_relation (relation other)"
    and "self \<noteq> other" and "version self = version other"
    and "relation self \<noteq> ''=''" and "relation other \<noteq> ''=''"
  shows "((relation self = ''<<'' \<or> relation self = ''>>'') \<and>
          (relation other = ''<='' \<or> relation other = ''>='') \<longrightarrow>
            Specifier_intersection cmp self (Spec other) = Inr (Ret {self}))
       \<and> ((relation self = ''<='' \<or> relation self = ''>='') \<and>
          (relation other = ''<<'' \<or> relation other = ''>>'') \<longrightarrow>
            Specifier_intersection cmp self (Spec other) = Inr (Ret {other}))
       \<and> (((relation self = ''<='' \<or> relation self = ''>='') \<and>
           (relation other = ''<='' \<or> relation other = ''>=''))
          \<or> ((relation self = ''<<'' \<or> relation self = ''>>'') \<and>
              (relation other = ''<<'' \<or> relation other = ''>>'')) \<longrightarrow>
            Specifier_intersection cmp self (Spec other) =
              Inr (Ret {if relation self = ''<='' \<or> relation self = ''>='' then other else self}))
       \<and> Specifier_intersection cmp (''<='', ''2.2'') (Spec (''<<'', ''2.2'')) =
            Inr (Ret {(''<<'', ''2.2'')})"
proof -
  have general: "Specifier_intersection cmp self (Spec other) =
      Inr (Ret {if relation self = ''<='' \<or> relation self = ''>='' then other else self})"
    using assms by (rule same_version_result)
  have example: "Specifier_intersection cmp (''<='', ''2.2'') (Spec (''<<'', ''2.2'')) =
      Inr (Ret {(''<<'', ''2.2'')})"
    by (simp add: result_defs)
  show ?thesis
    unfolding general using example by auto
qed

theorem same_version_intersection_witness:
  "valid_relation (relation (''>='', ''2.2'')) \<and> valid_relation (relation (''>>'', ''2.2''))
   \<and> (''>='', ''2.2'') \<noteq> (''>>'', ''2.2'')
   \<and> version (''>='', ''2.2'') = version (''>>'', ''2.2'')
   \<and> Specifier_intersection bytewise_compare (''>='', ''2.2'') (Spec (''>>'', ''2.2'')) =
        Inr (Ret {(''>>'', ''2.2'')})"
  using same_version_intersection [of "(''>='', ''2.2'')" "(''>>'', ''2.2'')" bytewise_compare]
  by (simp add: valid_relation_def relation_def version_def)

text \<open>
  C6. Two different specifiers. When the relation of \<open>self\<close> is \<open>=\<close>, the intersection is the
  set of \<open>self\<close> alone if \<open>other\<close> contains the version of \<open>self\<close>, and the empty set otherwise.
  When the relation of \<open>other\<close> is \<open>=\<close> (and that of \<open>self\<close>, tested first, is not), it is the
  set of \<open>other\<close> alone if \<open>self\<close> contains the version of \<open>other\<close>, and the empty set otherwise.
  In particular \<open>>=2.2\<close> intersected with \<open>=2.2.1\<close> is the set of \<open>=2.2.1\<close> alone whenever the
  comparator puts 2.2.1 at or above 2.2.
\<close>

theorem equal_relation_intersection:
  assumes "valid_relation (relation self)" and "valid_relation (relation other)"
    and "self \<noteq> other"
  shows "(relation self = ''='' \<longrightarrow>
            (\<exists>b. Specifier_contains cmp other (version self) = Inr b \<and>
               Specifier_intersection cmp self (Spec other) =
                 Inr (Ret (if b then {self} else {}))))
       \<and> (relation self \<noteq> ''='' \<and> relation other = ''='' \<longrightarrow>
            (\<exists>b. Specifier_contains cmp self (version other) = Inr b \<and>
               Specifier_intersection cmp self (Spec other) =
                 Inr (Ret (if b then {other} else {}))))
       \<and> (cmp ''2.2.1'' ''2.2'' \<ge> 0 \<longrightarrow>
            Specifier_intersection cmp (''>='', ''2.2'') (Spec (''='', ''2.2.1'')) =
              Inr (Ret {(''='', ''2.2.1'')}))"
proof -
  have example: "cmp ''2.2.1'' ''2.2'' \<ge> 0 \<longrightarrow>
      Specifier_intersection cmp (''>='', ''2.2'') (Spec (''='', ''2.2.1'')) =
        Inr (Ret {(''='', ''2.2.1'')})"
    by (simp add: result_defs)
  show ?thesis
    using equal_self_result [OF assms(2,3)] equal_other_result [OF assms(1,3)] example
    by blast
qed

theorem equal_relation_intersection_witness:
  "valid_relation (relation (''>='', ''2.2'')) \<and> valid_relation (relation (''='', ''2.2.1''))
   \<and> (''>='', ''2.2'') \<noteq> (''='', ''2.2.1'')
   \<and> relation (''>='', ''2.2'') \<noteq> ''='' \<and> relation (''='', ''2.2.1'') = ''=''
   \<and> bytewise_compare ''2.2.1'' ''2.2'' \<ge> 0
   \<and> Specifier_intersection bytewise_compare (''>='', ''2.2'') (Spec (''='', ''2.2.1'')) =
        Inr (Ret {(''='', ''2.2.1'')})"
proof -
  have h: "valid_relation (relation (''>='', ''2.2''))" "valid_relation (relation (''='', ''2.2.1''))"
    "(''>='', ''2.2'') \<noteq> (''='', ''2.2.1'')"
    by (simp_all add: valid_relation_def relation_def)
  have r: "relation (''>='', ''2.2'') \<noteq> ''=''" "relation (''='', ''2.2.1'') = ''=''"
    by (simp_all add: relation_def)
  have c: "bytewise_compare ''2.2.1'' ''2.2'' \<ge> 0"
    by (simp add: bytewise_compare_def)
  have "Specifier_intersection bytewise_compare (''>='', ''2.2'') (Spec (''='', ''2.2.1'')) =
        Inr (Ret {(''='', ''2.2.1'')})"
    using equal_relation_intersection [OF h, of bytewise_compare] c by blast
  with h r c show ?thesis by simp
qed

lemma overlap_result:
  assumes "valid_relation (relation self)" and "valid_relation (relation other)"
    and "version self \<noteq> version other"
    and "relation self \<noteq> ''=''" and "relation other \<noteq> ''=''"
    and "Specifier_contains cmp self (version other) = Inr True \<or>
         Specifier_contains cmp other (version self) = Inr True"
  shows "Specifier_intersection cmp self (Spec other) =
           Inr (Ret (if relation self ! 0 = relation other ! 0 then
                       (if relation self ! 0 = CHR ''>'' then
                          {if cmp (version self) (version other) > 0 then self else other}
                        else {if cmp (version self) (version other) > 0 then other else self})
                     else {self, other}))"
  using assms(1)
proof (cases rule: valid_relation_cases)
  case (1 w) with assms(2-) show ?thesis
    by (cases rule: valid_relation_cases[OF assms(2)]) (auto simp add: result_defs)
next
  case (2 w) with assms(2-) show ?thesis
    by (cases rule: valid_relation_cases[OF assms(2)]) (auto simp add: result_defs)
next
  case (3 w) with assms(2-) show ?thesis by (simp add: relation_def)
next
  case (4 w) with assms(2-) show ?thesis
    by (cases rule: valid_relation_cases[OF assms(2)]) (auto simp add: result_defs)
next
  case (5 w) with assms(2-) show ?thesis
    by (cases rule: valid_relation_cases[OF assms(2)]) (auto simp add: result_defs)
qed

lemma lower_bounds_head:
  assumes "r = ''>='' \<or> r = ''>>''" and "r' = ''>='' \<or> r' = ''>>''"
  shows "r ! 0 = r' ! 0" and "r ! 0 = CHR ''>''"
  using assms by auto

lemma upper_bounds_head:
  assumes "r = ''<='' \<or> r = ''<<''" and "r' = ''<='' \<or> r' = ''<<''"
  shows "r ! 0 = r' ! 0" and "r ! 0 \<noteq> CHR ''>''"
  using assms by auto

lemma opposite_bounds_head:
  assumes "(r = ''>='' \<or> r = ''>>'') \<and> (r' = ''<='' \<or> r' = ''<<'')
         \<or> (r = ''<='' \<or> r = ''<<'') \<and> (r' = ''>='' \<or> r' = ''>>'')"
  shows "r ! 0 \<noteq> r' ! 0"
  using assms by auto

text \<open>
  Two specifiers with different version strings, neither with relation \<open>=\<close>, whose ranges
  overlap: what lines 188 to 196 return, by the sign of the comparator on the two versions.
\<close>

theorem overlapping_intersection:
  assumes "valid_relation (relation self)" and "valid_relation (relation other)"
    and "version self \<noteq> version other"
    and "relation self \<noteq> ''=''" and "relation other \<noteq> ''=''"
    and "Specifier_contains cmp self (version other) = Inr True \<or>
         Specifier_contains cmp other (version self) = Inr True"
  shows "((relation self = ''>='' \<or> relation self = ''>>'') \<and>
          (relation other = ''>='' \<or> relation other = ''>>'') \<longrightarrow>
            Specifier_intersection cmp self (Spec other) =
              Inr (Ret {if cmp (version self) (version other) > 0 then self else other})
            \<and> (cmp (version self) (version other) > 0 \<longrightarrow>
                 Specifier_intersection cmp self (Spec other) = Inr (Ret {self}))
            \<and> (cmp (version self) (version other) < 0 \<longrightarrow>
                 Specifier_intersection cmp self (Spec other) = Inr (Ret {other})))
       \<and> ((relation self = ''<='' \<or> relation self = ''<<'') \<and>
          (relation other = ''<='' \<or> relation other = ''<<'') \<longrightarrow>
            Specifier_intersection cmp self (Spec other) =
              Inr (Ret {if cmp (version self) (version other) > 0 then other else self})
            \<and> (cmp (version self) (version other) > 0 \<longrightarrow>
                 Specifier_intersection cmp self (Spec other) = Inr (Ret {other}))
            \<and> (cmp (version self) (version other) < 0 \<longrightarrow>
                 Specifier_intersection cmp self (Spec other) = Inr (Ret {self})))
       \<and> (((relation self = ''>='' \<or> relation self = ''>>'') \<and>
           (relation other = ''<='' \<or> relation other = ''<<''))
          \<or> ((relation self = ''<='' \<or> relation self = ''<<'') \<and>
              (relation other = ''>='' \<or> relation other = ''>>'')) \<longrightarrow>
            Specifier_intersection cmp self (Spec other) = Inr (Ret {self, other})
            \<and> card {self, other} = 2)"
    (is "(?lower \<longrightarrow> ?L) \<and> (?upper \<longrightarrow> ?U) \<and> (?opposite \<longrightarrow> ?O)")
proof -
  note general = overlap_result [OF assms]
  have L: ?L if ?lower
  proof -
    from that have "relation self ! 0 = relation other ! 0" "relation self ! 0 = CHR ''>''"
      using lower_bounds_head by blast+
    with general have "Specifier_intersection cmp self (Spec other) =
        Inr (Ret {if cmp (version self) (version other) > 0 then self else other})"
      by simp
    then show ?thesis by simp
  qed
  have U: ?U if ?upper
  proof -
    from that have "relation self ! 0 = relation other ! 0" "relation self ! 0 \<noteq> CHR ''>''"
      using upper_bounds_head by blast+
    with general have "Specifier_intersection cmp self (Spec other) =
        Inr (Ret {if cmp (version self) (version other) > 0 then other else self})"
      by simp
    then show ?thesis by simp
  qed
  have O: ?O if ?opposite
  proof -
    from that have "relation self ! 0 \<noteq> relation other ! 0"
      by (rule opposite_bounds_head)
    with general have "Specifier_intersection cmp self (Spec other) = Inr (Ret {self, other})"
      by simp
    moreover have "self \<noteq> other"
      using assms(3) by auto
    ultimately show ?thesis by simp
  qed
  from L U O show ?thesis by blast
qed

theorem overlapping_intersection_witness:
  "valid_relation (relation (''>='', ''2.2'')) \<and> valid_relation (relation (''<<'', ''2.3''))
   \<and> version (''>='', ''2.2'') \<noteq> version (''<<'', ''2.3'')
   \<and> relation (''>='', ''2.2'') \<noteq> ''='' \<and> relation (''<<'', ''2.3'') \<noteq> ''=''
   \<and> Specifier_contains bytewise_compare (''>='', ''2.2'') ''2.3'' = Inr True
   \<and> Specifier_intersection bytewise_compare (''>='', ''2.2'') (Spec (''<<'', ''2.3'')) =
        Inr (Ret {(''>='', ''2.2''), (''<<'', ''2.3'')})"
proof -
  have h: "valid_relation (relation (''>='', ''2.2''))" "valid_relation (relation (''<<'', ''2.3''))"
    "version (''>='', ''2.2'') \<noteq> version (''<<'', ''2.3'')"
    "relation (''>='', ''2.2'') \<noteq> ''=''" "relation (''<<'', ''2.3'') \<noteq> ''=''"
    by (simp_all add: valid_relation_def relation_def version_def)
  have c: "Specifier_contains bytewise_compare (''>='', ''2.2'') ''2.3'' = Inr True"
    by (simp add: contains_simps bytewise_compare_def)
  have o: "Specifier_contains bytewise_compare (''>='', ''2.2'') (version (''<<'', ''2.3'')) = Inr True \<or>
         Specifier_contains bytewise_compare (''<<'', ''2.3'') (version (''>='', ''2.2'')) = Inr True"
    using c by (simp add: version_def)
  have "Specifier_intersection bytewise_compare (''>='', ''2.2'') (Spec (''<<'', ''2.3'')) =
        Inr (Ret {(''>='', ''2.2''), (''<<'', ''2.3'')})"
    using overlapping_intersection [OF h o] by (simp add: relation_def)
  with h c show ?thesis by simp
qed

lemma dotted_tie: "dotted_compare ''1.0'' ''1.00'' = 0" "dotted_compare ''1.00'' ''1.0'' = 0"
  by (simp_all add: dotted_compare_def digits_value_def)

lemma tie_result:
  assumes "cmp ''1.0'' ''1.00'' = 0" and "cmp ''1.00'' ''1.0'' = 0"
  shows "Specifier_intersection cmp (''>>'', ''1.0'') (Spec (''>='', ''1.00'')) =
           Inr (Ret {(''>='', ''1.00'')})"
    and "Specifier_intersection cmp (''>='', ''1.00'') (Spec (''>>'', ''1.0'')) =
           Inr (Ret {(''>>'', ''1.0'')})"
    and "Specifier_contains cmp (''>='', ''1.00'') ''1.0'' = Inr True"
  using assms by (simp_all add: result_defs)

text \<open>
  C7. With a comparator that ties \<open>1.0\<close> and \<open>1.00\<close>, the ranges of \<open>>>1.0\<close> and \<open>>=1.00\<close>
  overlap and both relations are lower bounds, yet the intersection is not the more
  restrictive bound: line 186 compares the two version strings, finds them different, and
  lines 189 to 194 then keep \<open>other\<close> whatever the strictness. \<open>>>1.0\<close> intersected with
  \<open>>=1.00\<close> is the set of \<open>>=1.00\<close>, which contains the version \<open>1.0\<close> that \<open>>>1.0\<close> excludes;
  with the operands exchanged the result is the set of \<open>>>1.0\<close>.
\<close>

theorem tied_versions_intersection:
  "dotted_compare ''1.0'' ''1.00'' = 0
   \<and> Specifier_contains dotted_compare (''>='', ''1.00'') ''1.0'' = Inr True
   \<and> Specifier_intersection dotted_compare (''>>'', ''1.0'') (Spec (''>='', ''1.00'')) =
       Inr (Ret {(''>='', ''1.00'')})
   \<and> Specifier_intersection dotted_compare (''>='', ''1.00'') (Spec (''>>'', ''1.0'')) =
       Inr (Ret {(''>>'', ''1.0'')})
   \<and> Specifier_contains dotted_compare (''>>'', ''1.0'') ''1.0'' = Inr False
   \<and> SpecifierSet_contains dotted_compare sorted_list_of_set {(''>='', ''1.00'')} ''1.0'' =
       Inr True"
proof -
  have "dotted_compare ''1.0'' ''1.0'' = 0"
    by (simp add: dotted_compare_def)
  then have "Specifier_contains dotted_compare (''>>'', ''1.0'') ''1.0'' = Inr False"
    by (simp add: contains_simps)
  moreover have "SpecifierSet_contains dotted_compare sorted_list_of_set {(''>='', ''1.00'')} ''1.0'' =
       Inr True"
    by (simp add: SpecifierSet_contains_def and_then_def tie_result(3) [OF dotted_tie])
  ultimately show ?thesis
    using dotted_tie(1) tie_result [OF dotted_tie] by simp
qed

subsection \<open>Sets: containment, parsing, equality\<close>

lemma init_results:
  "Specifier_init (Str s) = Inl InvalidSpecifier \<or> (\<exists>p. Specifier_init (Str s) = Inr p)"
  by (simp split: option.splits)

lemma all_contain_valid:
  assumes "\<forall>s \<in> set xs. valid_relation (relation s)"
  shows "all_contain cmp xs item = Inr (\<forall>s \<in> set xs. Specifier_contains cmp s item = Inr True)"
  using assms
proof (induction xs)
  case Nil
  then show ?case by simp
next
  case (Cons s xs)
  then obtain b where b: "Specifier_contains cmp s item = Inr b"
    using contains_total [of s cmp item] by auto
  with Cons show ?case
    by (cases b) (simp_all add: and_then_def)
qed

text \<open>
  C8. A set contains a version exactly when every member contains it; the empty set contains
  every version.
\<close>

theorem set_contains_all_members:
  assumes "enumerates ord" and "wf_set S"
  shows "SpecifierSet_contains cmp ord S item =
           Inr (\<forall>s \<in> S. Specifier_contains cmp s item = Inr True)
       \<and> SpecifierSet_contains cmp ord {} item = Inr True"
proof -
  have fin: "finite S" and valid: "\<forall>s \<in> S. valid_relation (relation s)"
    using assms(2) by (simp_all add: wf_set_def wf_specifier_def)
  have members: "set (ord S) = S"
    using assms(1) fin by (simp add: enumerates_def)
  have "set (ord {}) = {}"
    using assms(1) by (simp add: enumerates_def)
  then have empty: "ord {} = []"
    by simp
  have "all_contain cmp (ord S) item =
          Inr (\<forall>s \<in> set (ord S). Specifier_contains cmp s item = Inr True)"
    by (rule all_contain_valid) (simp add: members valid)
  then show ?thesis
    by (simp add: SpecifierSet_contains_def members empty)
qed

lemma enumerates_sorted: "enumerates sorted_list_of_set"
  by (simp add: enumerates_def)

theorem set_contains_all_members_witness:
  "enumerates sorted_list_of_set \<and> wf_set {(''>='', ''2.2''), (''<<'', ''2.3'')}
   \<and> SpecifierSet_contains bytewise_compare sorted_list_of_set
        {(''>='', ''2.2''), (''<<'', ''2.3'')} ''2.2.5'' = Inr True
   \<and> SpecifierSet_contains bytewise_compare sorted_list_of_set
        {(''>='', ''2.2''), (''<<'', ''2.3'')} ''2.3'' = Inr False"
proof -
  have w: "wf_set {(''>='', ''2.2''), (''<<'', ''2.3'')}"
    by (simp add: wf_set_def wf_specifier_def valid_relation_def relation_def version_def
        version_char_def is_space_def)
  show ?thesis
    using set_contains_all_members [OF enumerates_sorted w, of bytewise_compare "''2.2.5''"]
      set_contains_all_members [OF enumerates_sorted w, of bytewise_compare "''2.3''"]
    by (simp add: enumerates_sorted w contains_simps bytewise_compare_def)
qed

text \<open>
  C2. Construction from the empty string and from \<open>~~1.0\<close> raises \<open>InvalidSpecifier\<close>.
  Construction from \<open>>=\<close> followed by a space does not: the version group of the pattern is
  \<open>[^,;\s)]*\<close>, which matches the empty string, and the result is the specifier with relation
  \<open>>=\<close> and an empty version.
\<close>

theorem specifier_parsing_examples:
  "Specifier_init (Str '''') = Inl InvalidSpecifier
   \<and> Specifier_init (Str ''~~1.0'') = Inl InvalidSpecifier
   \<and> Specifier_init (Str ''>= '') = Inr (''>='', '''')"
  by (simp add: regex_search_def is_space_def strip_def)

lemma Specifier_eq_string:
  "Specifier_eq self (Str s) =
     (case Specifier_init (Str s) of
        Inl e \<Rightarrow> Inr NotImplemented
      | Inr other \<Rightarrow> Inr (Ret (self = other)))"
  using init_results [of s]
  by (auto simp add: Specifier_eq_def simp del: Specifier_init.simps)

lemma SpecifierSet_eq_string:
  "SpecifierSet_eq S (Str t) =
     (case SpecifierSet_init (SpecString t) of
        Inl e \<Rightarrow> Inl e
      | Inr T \<Rightarrow> Inr (Ret (S = T)))"
  by (simp add: SpecifierSet_eq_def and_then_def del: SpecifierSet_init.simps split: sum.splits)

lemma malformed_set_string: "SpecifierSet_init (SpecString ''~~1.0'') = Inl InvalidSpecifier"
  by (simp add: strip_def is_space_def regex_search_def)

text \<open>
  C10. Comparing a \<open>Specifier\<close> with a string never raises: the string is parsed, the answer
  is true exactly when it parses to the same pair, and a string that does not parse is answered
  with \<open>NotImplemented\<close>. Comparing a \<open>SpecifierSet\<close> with a string parses it with no handler,
  so a string that does not parse raises \<open>InvalidSpecifier\<close>.
\<close>

theorem equality_with_strings:
  "(\<forall>e. Specifier_eq self (Str s) \<noteq> Inl e)
   \<and> (Specifier_eq self (Str s) = Inr (Ret True) \<longleftrightarrow> Specifier_init (Str s) = Inr self)
   \<and> (Specifier_init (Str s) = Inl InvalidSpecifier \<longrightarrow>
        Specifier_eq self (Str s) = Inr NotImplemented)
   \<and> (\<forall>e. SpecifierSet_init (SpecString t) = Inl e \<longrightarrow> SpecifierSet_eq S (Str t) = Inl e)
   \<and> SpecifierSet_init (SpecString ''~~1.0'') = Inl InvalidSpecifier
   \<and> SpecifierSet_eq S (Str ''~~1.0'') = Inl InvalidSpecifier"
proof -
  have a: "\<forall>e. Specifier_eq self (Str s) \<noteq> Inl e"
    unfolding Specifier_eq_string by (simp split: sum.splits)
  have b: "Specifier_eq self (Str s) = Inr (Ret True) \<longleftrightarrow> Specifier_init (Str s) = Inr self"
    unfolding Specifier_eq_string by (auto split: sum.splits)
  have c: "Specifier_init (Str s) = Inl InvalidSpecifier \<longrightarrow>
        Specifier_eq self (Str s) = Inr NotImplemented"
    unfolding Specifier_eq_string by (simp split: sum.splits)
  have d: "\<forall>e. SpecifierSet_init (SpecString t) = Inl e \<longrightarrow> SpecifierSet_eq S (Str t) = Inl e"
    unfolding SpecifierSet_eq_string by (simp split: sum.splits)
  have e: "SpecifierSet_eq S (Str ''~~1.0'') = Inl InvalidSpecifier"
    unfolding SpecifierSet_eq_string malformed_set_string by simp
  from a b c d e malformed_set_string show ?thesis by blast
qed

theorem equality_with_strings_witness:
  "Specifier_init (Str ''>= 2.2'') = Inr (''>='', ''2.2'')
   \<and> Specifier_eq (''>='', ''2.2'') (Str ''>= 2.2'') = Inr (Ret True)
   \<and> Specifier_init (Str ''~~1.0'') = Inl InvalidSpecifier
   \<and> Specifier_eq (''>='', ''2.2'') (Str ''~~1.0'') = Inr NotImplemented
   \<and> SpecifierSet_init (SpecString ''>=2.2,~~1.0'') = Inl InvalidSpecifier
   \<and> SpecifierSet_eq {(''>='', ''2.2'')} (Str ''>=2.2,~~1.0'') = Inl InvalidSpecifier"
proof -
  have p: "Specifier_init (Str ''>= 2.2'') = Inr (''>='', ''2.2'')"
    by (simp add: regex_search_def is_space_def strip_def version_char_def)
  have q: "Specifier_init (Str ''~~1.0'') = Inl InvalidSpecifier"
    by (simp add: regex_search_def is_space_def)
  have r: "SpecifierSet_init (SpecString ''>=2.2,~~1.0'') = Inl InvalidSpecifier"
    by (simp add: regex_search_def is_space_def strip_def version_char_def)
  show ?thesis
    using equality_with_strings [of "(''>='', ''2.2'')" "''>= 2.2''" "''>=2.2,~~1.0''" "{(''>='', ''2.2'')}"]
      equality_with_strings [of "(''>='', ''2.2'')" "''~~1.0''" "''>=2.2,~~1.0''" "{(''>='', ''2.2'')}"]
      p q r
    by blast
qed

subsection \<open>Where the order of the operands shows\<close>

text \<open>
  C1. For two specifiers with the same version string and opposite directions the branch for
  equal versions looks at the second character of the relation of \<open>self\<close> only:
  \<open><=1\<close> intersected with \<open>>=1\<close> is the set of \<open>>=1\<close>, and \<open>>=1\<close> intersected with \<open><=1\<close> is
  the set of \<open><=1\<close>. The two results do not contain the same versions: under the bytewise
  comparator the first contains \<open>2\<close> and the second does not.
\<close>

theorem intersection_not_commutative:
  "Specifier_intersection cmp (''<='', ''1'') (Spec (''>='', ''1'')) = Inr (Ret {(''>='', ''1'')})
   \<and> Specifier_intersection cmp (''>='', ''1'') (Spec (''<='', ''1'')) = Inr (Ret {(''<='', ''1'')})
   \<and> SpecifierSet_contains bytewise_compare sorted_list_of_set {(''>='', ''1'')} ''2'' = Inr True
   \<and> SpecifierSet_contains bytewise_compare sorted_list_of_set {(''<='', ''1'')} ''2'' = Inr False"
  by (simp add: result_defs SpecifierSet_contains_def bytewise_compare_def)

lemma pool_sorted:
  "sorted_list_of_set ({(''<='', ''1'')} \<union> {(''>='', ''1'')}) = [(''<='', ''1''), (''>='', ''1'')]"
  by simp

lemma and_le_ge: "Specifier_and cmp (''<='', ''1'') (''>='', ''1'') = Inr {(''>='', ''1'')}"
  by (simp add: Specifier_and_def result_defs)

lemma and_ge_le: "Specifier_and cmp (''>='', ''1'') (''<='', ''1'') = Inr {(''<='', ''1'')}"
  by (simp add: Specifier_and_def result_defs)

lemma enumerates_rev_sorted: "enumerates (rev \<circ> sorted_list_of_set)"
  by (simp add: enumerates_def)

text \<open>
  C4. The pool of \<open><=1\<close> and \<open>>=1\<close>, visited in the two possible orders: starting from \<open><=1\<close>
  the result is the set of \<open>>=1\<close>, starting from \<open>>=1\<close> it is the set of \<open><=1\<close>, and the two
  do not contain the same versions.
\<close>

theorem set_intersection_depends_on_order:
  "SpecifierSet_intersection cmp sorted_list_of_set {(''<='', ''1'')} (SSet {(''>='', ''1'')}) =
     Inr (Ret {(''>='', ''1'')})
   \<and> SpecifierSet_intersection cmp (rev \<circ> sorted_list_of_set) {(''<='', ''1'')}
        (SSet {(''>='', ''1'')}) = Inr (Ret {(''<='', ''1'')})
   \<and> SpecifierSet_contains bytewise_compare sorted_list_of_set {(''>='', ''1'')} ''2'' = Inr True
   \<and> SpecifierSet_contains bytewise_compare sorted_list_of_set {(''<='', ''1'')} ''2'' = Inr False"
proof -
  have a: "SpecifierSet_intersection cmp sorted_list_of_set {(''<='', ''1'')}
      (SSet {(''>='', ''1'')}) = Inr (Ret {(''>='', ''1'')})"
    unfolding SpecifierSet_intersection_def coerce_set_strict.simps sum.case ret.case pool_sorted
    by (simp add: and_le_ge and_then_def)
  have b: "SpecifierSet_intersection cmp (rev \<circ> sorted_list_of_set) {(''<='', ''1'')}
      (SSet {(''>='', ''1'')}) = Inr (Ret {(''<='', ''1'')})"
    unfolding SpecifierSet_intersection_def coerce_set_strict.simps sum.case ret.case comp_def pool_sorted
    by (simp add: and_ge_le and_then_def)
  have c: "SpecifierSet_contains bytewise_compare sorted_list_of_set {(''>='', ''1'')} ''2'' = Inr True"
    "SpecifierSet_contains bytewise_compare sorted_list_of_set {(''<='', ''1'')} ''2'' = Inr False"
    by (simp_all add: SpecifierSet_contains_def and_then_def contains_simps bytewise_compare_def)
  from a b c show ?thesis by simp
qed

subsection \<open>What parsing guarantees\<close>

lemma match_relation_valid:
  assumes "match_relation s = Some (rel, rest)"
  shows "valid_relation rel"
  using assms by (auto simp add: valid_relation_def split: if_splits)

lemma regex_search_wf:
  assumes "regex_search s = Some (rel, ver)"
  shows "valid_relation rel \<and> list_all version_char ver"
proof -
  from assms obtain rest where m: "match_relation (dropWhile is_space s) = Some (rel, rest)"
    and v: "ver = takeWhile version_char (dropWhile is_space rest)"
    by (auto simp add: regex_search_def Let_def simp del: match_relation.simps
        split: option.splits if_splits)
  have "list_all version_char ver"
    unfolding v list_all_iff by (auto dest: set_takeWhileD)
  with match_relation_valid [OF m] show ?thesis by simp
qed

lemma strip_no_space:
  assumes "\<forall>c \<in> set s. \<not> is_space c"
  shows "strip s = s"
proof -
  have a: "dropWhile is_space s = s"
    using assms by (cases s) simp_all
  have "\<forall>c \<in> set (rev s). \<not> is_space c"
    using assms by simp
  then have b: "dropWhile is_space (rev s) = rev s"
    by (cases "rev s") simp_all
  show ?thesis
    by (simp add: strip_def a b)
qed

lemma valid_relation_no_space:
  assumes "valid_relation rel"
  shows "\<forall>c \<in> set rel. \<not> is_space c \<and> c \<noteq> CHR '',''"
  using assms by (auto simp add: valid_relation_def is_space_def)

lemma version_no_space:
  assumes "list_all version_char ver"
  shows "\<forall>c \<in> set ver. \<not> is_space c \<and> c \<noteq> CHR '',''"
  using assms by (auto simp add: list_all_iff version_char_def)

lemma Specifier_init_wf:
  assumes "Specifier_init (Str s) = Inr p"
  shows "wf_specifier p"
proof -
  from assms obtain rel ver where r: "regex_search s = Some (rel, ver)"
    and p: "p = (strip rel, strip ver)"
    by (auto split: option.splits)
  have "valid_relation rel" "list_all version_char ver"
    using regex_search_wf [OF r] by simp_all
  moreover from this have "strip rel = rel" "strip ver = ver"
    using valid_relation_no_space version_no_space by (simp_all add: strip_no_space)
  ultimately show ?thesis
    by (simp add: p wf_specifier_def relation_def version_def)
qed

lemma parse_each_wf:
  assumes "parse_each xs P = Inr R" and "\<forall>x \<in> set xs. \<exists>s. x = Str s" and "wf_set P"
  shows "wf_set R"
  using assms
proof (induction xs arbitrary: P)
  case Nil
  then show ?case by simp
next
  case (Cons x xs)
  then obtain s where x: "x = Str s" by auto
  from Cons.prems(1) obtain p where p: "Specifier_init (Str s) = Inr p"
    and rest: "parse_each xs (insert p P) = Inr R"
    unfolding x by (auto simp del: Specifier_init.simps split: sum.splits)
  have "wf_set (insert p P)"
    using Specifier_init_wf [OF p] Cons.prems(3) by (simp add: wf_set_def)
  with Cons.IH [OF rest] Cons.prems(2) show ?case by simp
qed

lemma init_string_wf:
  assumes "SpecifierSet_init (SpecString t) = Inr T"
  shows "wf_set T"
proof -
  have a: "parse_each (map (\<lambda>s. Str (strip s))
          (filter (\<lambda>s. strip s \<noteq> []) (split CHR '','' t))) {} = Inr T"
    using assms by simp
  have b: "wf_set {}"
    by (simp add: wf_set_def)
  show ?thesis
    by (rule parse_each_wf [OF a _ b]) auto
qed

subsection \<open>The set operations return\<close>

lemma intersection_result_total:
  assumes "valid_relation (relation a)" and "valid_relation (relation b)"
  shows "\<exists>r. intersection_result cmp a b = Inr r \<and>
           (case r of None \<Rightarrow> True | Some l \<Rightarrow> set l \<subseteq> {a, b})"
  using assms(1)
proof (cases rule: valid_relation_cases)
  case (1 w) then show ?thesis
    by (cases rule: valid_relation_cases[OF assms(2)])
      (simp_all add: intersection_result_def contains_simps and_then_def char_at_def
        relation_def version_def Let_def)
next
  case (2 w) then show ?thesis
    by (cases rule: valid_relation_cases[OF assms(2)])
      (simp_all add: intersection_result_def contains_simps and_then_def char_at_def
        relation_def version_def Let_def)
next
  case (3 w) then show ?thesis
    by (cases rule: valid_relation_cases[OF assms(2)])
      (simp_all add: intersection_result_def contains_simps and_then_def char_at_def
        relation_def version_def Let_def)
next
  case (4 w) then show ?thesis
    by (cases rule: valid_relation_cases[OF assms(2)])
      (simp_all add: intersection_result_def contains_simps and_then_def char_at_def
        relation_def version_def Let_def)
next
  case (5 w) then show ?thesis
    by (cases rule: valid_relation_cases[OF assms(2)])
      (simp_all add: intersection_result_def contains_simps and_then_def char_at_def
        relation_def version_def Let_def)
qed

lemma Specifier_and_total:
  assumes "valid_relation (relation a)" and "valid_relation (relation b)"
  shows "\<exists>R. Specifier_and cmp a b = Inr R \<and> R \<subseteq> {a, b}"
proof -
  obtain r where r: "intersection_result cmp a b = Inr r"
    and sub: "case r of None \<Rightarrow> True | Some l \<Rightarrow> set l \<subseteq> {a, b}"
    using intersection_result_total [OF assms] by blast
  show ?thesis
    using sub by (cases r) (simp_all add: Specifier_and_def intersection_of_specifier r and_then_def)
qed

lemma inner_loop_total:
  assumes "\<forall>m \<in> set cur. valid_relation (relation m)" and "valid_relation (relation e)"
  shows "\<exists>P'. inner_loop cmp cur e P = Inr P' \<and> P' \<subseteq> P \<union> set cur \<union> {e}"
  using assms(1)
proof (induction cur arbitrary: P)
  case Nil
  then show ?case by auto
next
  case (Cons m ms)
  then obtain R where R: "Specifier_and cmp m e = Inr R" "R \<subseteq> {m, e}"
    using Specifier_and_total [of m e cmp] assms(2) by auto
  show ?case
  proof (cases "R = {}")
    case True
    then show ?thesis by (simp add: R and_then_def)
  next
    case False
    obtain P' where "inner_loop cmp ms e (P \<union> R) = Inr P'" "P' \<subseteq> (P \<union> R) \<union> set ms \<union> {e}"
      using Cons.IH [of "P \<union> R"] Cons.prems by auto
    with False R show ?thesis
      by (auto simp add: and_then_def)
  qed
qed

lemma outer_loop_total:
  assumes "enumerates ord"
    and "\<forall>m \<in> set rest. valid_relation (relation m)"
    and "\<forall>m \<in> set cur. valid_relation (relation m)"
  shows "\<exists>r. outer_loop cmp ord rest cur = Inr r \<and> set r \<subseteq> set cur \<union> set rest"
  using assms(2,3)
proof (induction rest arbitrary: cur)
  case Nil
  then show ?case by simp
next
  case (Cons e es)
  then obtain P where P: "inner_loop cmp cur e {} = Inr P" "P \<subseteq> {} \<union> set cur \<union> {e}"
    using inner_loop_total [of cur e cmp "{}"] by auto
  show ?case
  proof (cases "P = {}")
    case True
    then show ?thesis by (simp add: P and_then_def)
  next
    case False
    have "finite P"
      using P(2) by (rule finite_subset) simp
    then have ordP: "set (ord P) = P"
      using assms(1) by (simp add: enumerates_def)
    have "\<forall>m \<in> set (ord P). valid_relation (relation m)"
      using P(2) Cons.prems ordP by auto
    then obtain r where "outer_loop cmp ord es (ord P) = Inr r" "set r \<subseteq> set (ord P) \<union> set es"
      using Cons.IH [of "ord P"] Cons.prems by auto
    with False P ordP show ?thesis
      by (auto simp add: and_then_def)
  qed
qed

lemma set_intersection_total:
  assumes "enumerates ord" and "wf_set S" and "wf_set T"
  shows "\<exists>R. SpecifierSet_intersection cmp ord S (SSet T) = Inr (Ret R) \<and> R \<subseteq> S \<union> T"
proof -
  have fin: "finite (S \<union> T)" and valid: "\<forall>s \<in> S \<union> T. valid_relation (relation s)"
    using assms(2,3) by (auto simp add: wf_set_def wf_specifier_def)
  have pool: "set (ord (S \<union> T)) = S \<union> T"
    using assms(1) fin by (simp add: enumerates_def)
  show ?thesis
  proof (cases "ord (S \<union> T)")
    case Nil
    then show ?thesis
      by (simp add: SpecifierSet_intersection_def and_then_def)
  next
    case (Cons seed rest)
    have "\<forall>m \<in> set rest. valid_relation (relation m)" "\<forall>m \<in> set [seed]. valid_relation (relation m)"
      using pool valid Cons by auto
    then obtain r where r: "outer_loop cmp ord rest [seed] = Inr r" "set r \<subseteq> set [seed] \<union> set rest"
      using outer_loop_total [OF assms(1), of rest "[seed]" cmp] by blast
    have "set r \<subseteq> S \<union> T"
      using r(2) pool Cons by auto
    then show ?thesis
      by (simp add: SpecifierSet_intersection_def and_then_def Cons r(1) init_of_specifiers
          del: SpecifierSet_init.simps)
  qed
qed

lemma string_operand_intersection:
  assumes "SpecifierSet_init (SpecString t) = Inr U"
  shows "SpecifierSet_intersection cmp ord S (Str t) = SpecifierSet_intersection cmp ord S (SSet U)"
  using assms
  by (simp add: SpecifierSet_intersection_def and_then_def del: SpecifierSet_init.simps)

lemma set_union_result: "SpecifierSet_union S (SSet T) = Inr (Ret (S \<union> T))"
  by (simp add: SpecifierSet_union_def and_then_def)

lemma init_of_nothing: "SpecifierSet_init (SpecSeq []) = Inr {}"
  by simp

lemma string_operand_union:
  assumes "SpecifierSet_init (SpecString t) = Inr U"
  shows "SpecifierSet_union S (Str t) = Inr (Ret (S \<union> U))"
  using assms
  by (simp add: SpecifierSet_union_def and_then_def init_of_nothing del: SpecifierSet_init.simps)

lemma set_contains_total:
  assumes "enumerates ord" and "wf_set S"
  shows "\<exists>b. SpecifierSet_contains cmp ord S item = Inr b"
proof -
  have "set (ord S) = S"
    using assms by (simp add: enumerates_def wf_set_def)
  then have "\<forall>s \<in> set (ord S). valid_relation (relation s)"
    using assms(2) by (simp add: wf_set_def wf_specifier_def)
  then show ?thesis
    unfolding SpecifierSet_contains_def by (simp add: all_contain_valid)
qed

lemma parse_each_strings_error:
  assumes "parse_each xs P = Inl e" and "\<forall>x \<in> set xs. \<exists>s. x = Str s"
  shows "e = InvalidSpecifier"
  using assms
proof (induction xs arbitrary: P)
  case Nil
  then show ?case by simp
next
  case (Cons x xs)
  then obtain s where x: "x = Str s" by auto
  show ?case
  proof (cases "Specifier_init (Str s)")
    case (Inl e')
    then have "e' = InvalidSpecifier"
      using init_results [of s] by auto
    with Inl Cons.prems(1) show ?thesis
      unfolding x by (simp del: Specifier_init.simps)
  next
    case (Inr p)
    with Cons.prems(1) have "parse_each xs (insert p P) = Inl e"
      unfolding x by (simp del: Specifier_init.simps)
    with Cons.IH Cons.prems(2) show ?thesis by simp
  qed
qed

lemma init_string_error:
  assumes "SpecifierSet_init (SpecString t) = Inl e"
  shows "e = InvalidSpecifier"
proof -
  have a: "parse_each (map (\<lambda>s. Str (strip s))
          (filter (\<lambda>s. strip s \<noteq> []) (split CHR '','' t))) {} = Inl e"
    using assms by simp
  show ?thesis
    by (rule parse_each_strings_error [OF a]) auto
qed

lemma string_operand_raises:
  assumes "SpecifierSet_init (SpecString t) = Inl e"
  shows "SpecifierSet_intersection cmp ord S (Str t) = Inl e"
    and "SpecifierSet_union S (Str t) = Inl e"
  using assms
  by (simp_all add: SpecifierSet_intersection_def SpecifierSet_union_def and_then_def
      del: SpecifierSet_init.simps)

lemma other_operands:
  "SpecifierSet_intersection cmp ord S (Spec s) = Inr NotImplemented"
  "SpecifierSet_intersection cmp ord S Other = Inr NotImplemented"
  "SpecifierSet_union S (Spec s) = Inr NotImplemented"
  "SpecifierSet_union S Other = Inr NotImplemented"
  by (simp_all add: SpecifierSet_intersection_def SpecifierSet_union_def)

lemma two_member_order:
  assumes "enumerates ord" and "a \<noteq> b"
  shows "ord {a, b} = [a, b] \<or> ord {a, b} = [b, a]"
proof -
  have s: "set (ord {a, b}) = {a, b}" and d: "distinct (ord {a, b})"
    using assms(1) by (simp_all add: enumerates_def)
  then have "length (ord {a, b}) = 2"
    using assms(2) distinct_card [OF d] by simp
  then obtain x y where xy: "ord {a, b} = [x, y]"
    by (cases "ord {a, b}") (auto simp add: length_Suc_conv)
  with s d assms(2) show ?thesis
    by (auto simp add: doubleton_eq_iff)
qed

lemma disjoint_specifiers:
  assumes "valid_relation (relation a)" and "valid_relation (relation b)"
    and "a \<noteq> b"
    and "relation a = ''='' \<or> relation b = ''='' \<or> version a \<noteq> version b"
    and "Specifier_contains cmp a (version b) = Inr False"
    and "Specifier_contains cmp b (version a) = Inr False"
  shows "Specifier_intersection cmp a (Spec b) = Inr (Ret {})"
  using assms(1)
proof (cases rule: valid_relation_cases)
  case (1 w) with assms(2-) show ?thesis
    by (cases rule: valid_relation_cases[OF assms(2)]) (auto simp add: result_defs)
next
  case (2 w) with assms(2-) show ?thesis
    by (cases rule: valid_relation_cases[OF assms(2)]) (auto simp add: result_defs)
next
  case (3 w) with assms(2-) show ?thesis
    by (cases rule: valid_relation_cases[OF assms(2)]) (auto simp add: result_defs)
next
  case (4 w) with assms(2-) show ?thesis
    by (cases rule: valid_relation_cases[OF assms(2)]) (auto simp add: result_defs)
next
  case (5 w) with assms(2-) show ?thesis
    by (cases rule: valid_relation_cases[OF assms(2)]) (auto simp add: result_defs)
qed

lemma pool_of_two:
  assumes "Specifier_and cmp x y = Inr {}"
  shows "and_then (outer_loop cmp ord [y] [x])
           (\<lambda>intersection. and_then (SpecifierSet_init (SpecSeq (map Spec intersection)))
              (\<lambda>s. Inr (Ret s))) = Inr (Ret {})"
  using assms by (simp add: and_then_def)

lemma disjoint_sets:
  assumes "enumerates ord"
    and "valid_relation (relation a)" and "valid_relation (relation b)"
    and "a \<noteq> b"
    and "relation a = ''='' \<or> relation b = ''='' \<or> version a \<noteq> version b"
    and "Specifier_contains cmp a (version b) = Inr False"
    and "Specifier_contains cmp b (version a) = Inr False"
  shows "SpecifierSet_intersection cmp ord {a} (SSet {b}) = Inr (Ret {})"
proof -
  have ab: "Specifier_and cmp a b = Inr {}"
    using disjoint_specifiers [OF assms(2-7)] by (simp add: Specifier_and_def and_then_def)
  have "relation b = ''='' \<or> relation a = ''='' \<or> version b \<noteq> version a"
    using assms(5) by auto
  then have ba: "Specifier_and cmp b a = Inr {}"
    using disjoint_specifiers [OF assms(3,2) assms(4) [symmetric] _ assms(7,6)]
    by (simp add: Specifier_and_def and_then_def)
  have pool: "{a} \<union> {b} = {a, b}"
    by auto
  from two_member_order [OF assms(1,4)] show ?thesis
  proof
    assume "ord {a, b} = [a, b]"
    then show ?thesis
      unfolding SpecifierSet_intersection_def coerce_set_strict.simps sum.case ret.case pool
      by (simp only: list.case pool_of_two [OF ab])
  next
    assume "ord {a, b} = [b, a]"
    then show ?thesis
      unfolding SpecifierSet_intersection_def coerce_set_strict.simps sum.case ret.case pool
      by (simp only: list.case pool_of_two [OF ba])
  qed
qed

text \<open>
  A string operand that does not parse: \<open>SpecifierSet.intersection\<close> and
  \<open>SpecifierSet.union\<close> call the constructor with no handler and raise \<open>InvalidSpecifier\<close>.
  And \<open><<1\<close> intersected with \<open>>>1\<close>, which no version satisfies, is not the empty set.
\<close>

theorem string_operand_counterexample:
  "SpecifierSet_intersection bytewise_compare sorted_list_of_set {(''>='', ''2.2'')}
     (Str ''~~1.0'') = Inl InvalidSpecifier
   \<and> SpecifierSet_union {(''>='', ''2.2'')} (Str ''~~1.0'') = Inl InvalidSpecifier
   \<and> Specifier_intersection bytewise_compare (''<<'', ''1'') (Spec (''>>'', ''1'')) =
       Inr (Ret {(''<<'', ''1'')})"
proof -
  have "SpecifierSet_intersection bytewise_compare sorted_list_of_set {(''>='', ''2.2'')}
     (Str ''~~1.0'') = Inl InvalidSpecifier"
    "SpecifierSet_union {(''>='', ''2.2'')} (Str ''~~1.0'') = Inl InvalidSpecifier"
    by (rule string_operand_raises [OF malformed_set_string])+
  moreover have "Specifier_intersection bytewise_compare (''<<'', ''1'') (Spec (''>>'', ''1'')) =
       Inr (Ret {(''<<'', ''1'')})"
    by (simp add: result_defs)
  ultimately show ?thesis by simp
qed

text \<open>
  C3, as the code has it. On well-formed sets \<open>SpecifierSet.intersection\<close>,
  \<open>SpecifierSet.union\<close> and \<open>SpecifierSet.contains\<close> return a value and raise nothing; the
  intersection holds members of the two operands only. With a string operand, intersection
  and union return a value when the string parses and raise \<open>InvalidSpecifier\<close> when it does
  not; with an operand of another type they return \<open>NotImplemented\<close>. Two different
  specifiers of which neither contains the version of the other, and which have different
  version strings or a relation \<open>=\<close>, intersect to the empty set and no error, as specifiers
  and as one-member sets in either order; \<open>>=3.0\<close> and \<open><<2.0\<close> are such a pair when the
  comparator puts 2.0 below 3.0.
\<close>

theorem set_operations_errors:
  assumes "enumerates ord" and "wf_set S" and "wf_set T"
  shows "(\<exists>R. SpecifierSet_intersection cmp ord S (SSet T) = Inr (Ret R) \<and> R \<subseteq> S \<union> T)
       \<and> SpecifierSet_union S (SSet T) = Inr (Ret (S \<union> T))
       \<and> (\<exists>b. SpecifierSet_contains cmp ord S item = Inr b)
       \<and> (\<forall>U. SpecifierSet_init (SpecString t) = Inr U \<longrightarrow>
             (\<exists>R. SpecifierSet_intersection cmp ord S (Str t) = Inr (Ret R) \<and> R \<subseteq> S \<union> U)
           \<and> SpecifierSet_union S (Str t) = Inr (Ret (S \<union> U)))
       \<and> ((\<forall>U. SpecifierSet_init (SpecString t) \<noteq> Inr U) \<longrightarrow>
             SpecifierSet_intersection cmp ord S (Str t) = Inl InvalidSpecifier
           \<and> SpecifierSet_union S (Str t) = Inl InvalidSpecifier)
       \<and> SpecifierSet_intersection cmp ord S (Spec s) = Inr NotImplemented
       \<and> SpecifierSet_intersection cmp ord S Other = Inr NotImplemented
       \<and> SpecifierSet_union S (Spec s) = Inr NotImplemented
       \<and> SpecifierSet_union S Other = Inr NotImplemented
       \<and> (valid_relation (relation a) \<and> valid_relation (relation b) \<and> a \<noteq> b
          \<and> (relation a = ''='' \<or> relation b = ''='' \<or> version a \<noteq> version b)
          \<and> Specifier_contains cmp a (version b) = Inr False
          \<and> Specifier_contains cmp b (version a) = Inr False \<longrightarrow>
             Specifier_intersection cmp a (Spec b) = Inr (Ret {})
           \<and> SpecifierSet_intersection cmp ord {a} (SSet {b}) = Inr (Ret {}))
       \<and> (cmp ''2.0'' ''3.0'' < 0 \<and> cmp ''3.0'' ''2.0'' > 0 \<longrightarrow>
             Specifier_intersection cmp (''>='', ''3.0'') (Spec (''<<'', ''2.0'')) = Inr (Ret {})
           \<and> SpecifierSet_intersection cmp ord {(''>='', ''3.0'')} (SSet {(''<<'', ''2.0'')}) =
               Inr (Ret {}))"
    (is "?A \<and> ?B \<and> ?C \<and> ?D \<and> ?E \<and> ?F1 \<and> ?F2 \<and> ?F3 \<and> ?F4 \<and> ?G \<and> ?H")
proof -
  have A: ?A
    using assms by (rule set_intersection_total)
  have B: ?B
    by (rule set_union_result)
  have C: ?C
    using assms(1,2) by (rule set_contains_total)
  have D: ?D
  proof (intro allI impI)
    fix U
    assume U: "SpecifierSet_init (SpecString t) = Inr U"
    then have "wf_set U"
      by (rule init_string_wf)
    then have "\<exists>R. SpecifierSet_intersection cmp ord S (SSet U) = Inr (Ret R) \<and> R \<subseteq> S \<union> U"
      by (rule set_intersection_total [OF assms(1,2)])
    then show "(\<exists>R. SpecifierSet_intersection cmp ord S (Str t) = Inr (Ret R) \<and> R \<subseteq> S \<union> U)
        \<and> SpecifierSet_union S (Str t) = Inr (Ret (S \<union> U))"
      by (simp add: string_operand_intersection [OF U] string_operand_union [OF U])
  qed
  have E: ?E
  proof
    assume none: "\<forall>U. SpecifierSet_init (SpecString t) \<noteq> Inr U"
    then obtain e where e: "SpecifierSet_init (SpecString t) = Inl e"
      by (cases "SpecifierSet_init (SpecString t)") auto
    then have "SpecifierSet_init (SpecString t) = Inl InvalidSpecifier"
      using init_string_error by blast
    then show "SpecifierSet_intersection cmp ord S (Str t) = Inl InvalidSpecifier
        \<and> SpecifierSet_union S (Str t) = Inl InvalidSpecifier"
      using string_operand_raises by blast
  qed
  have G: ?G
  proof (intro impI, elim conjE)
    assume h: "valid_relation (relation a)" "valid_relation (relation b)" "a \<noteq> b"
      "relation a = ''='' \<or> relation b = ''='' \<or> version a \<noteq> version b"
      "Specifier_contains cmp a (version b) = Inr False"
      "Specifier_contains cmp b (version a) = Inr False"
    show "Specifier_intersection cmp a (Spec b) = Inr (Ret {})
        \<and> SpecifierSet_intersection cmp ord {a} (SSet {b}) = Inr (Ret {})"
      using disjoint_specifiers [OF h] disjoint_sets [OF assms(1) h] by (rule conjI)
  qed
  have H: ?H
  proof
    assume o: "cmp ''2.0'' ''3.0'' < 0 \<and> cmp ''3.0'' ''2.0'' > 0"
    have v: "valid_relation (relation (''>='', ''3.0''))" "valid_relation (relation (''<<'', ''2.0''))"
      by (simp_all add: valid_relation_def relation_def)
    have n: "(''>='', ''3.0'') \<noteq> (''<<'', ''2.0'')" by simp
    have d: "relation (''>='', ''3.0'') = ''='' \<or> relation (''<<'', ''2.0'') = ''=''
        \<or> version (''>='', ''3.0'') \<noteq> version (''<<'', ''2.0'')"
      by (simp add: version_def)
    have c1: "Specifier_contains cmp (''>='', ''3.0'') (version (''<<'', ''2.0'')) = Inr False"
      using o by (simp add: contains_simps version_def)
    have c2: "Specifier_contains cmp (''<<'', ''2.0'') (version (''>='', ''3.0'')) = Inr False"
      using o by (simp add: contains_simps version_def)
    show "Specifier_intersection cmp (''>='', ''3.0'') (Spec (''<<'', ''2.0'')) = Inr (Ret {})
        \<and> SpecifierSet_intersection cmp ord {(''>='', ''3.0'')} (SSet {(''<<'', ''2.0'')}) =
            Inr (Ret {})"
      using disjoint_specifiers [OF v n d c1 c2] disjoint_sets [OF assms(1) v n d c1 c2]
      by simp
  qed
  show ?thesis
    by (intro conjI) (fact A B C D E G H other_operands)+
qed

theorem set_operations_errors_witness:
  "enumerates sorted_list_of_set
   \<and> wf_set {(''>='', ''2.2''), (''<<'', ''2.3'')} \<and> wf_set {(''>='', ''2.4'')}
   \<and> (\<exists>R. SpecifierSet_intersection bytewise_compare sorted_list_of_set
              {(''>='', ''2.2''), (''<<'', ''2.3'')} (SSet {(''>='', ''2.4'')}) = Inr (Ret R))
   \<and> SpecifierSet_union {(''>='', ''2.2''), (''<<'', ''2.3'')} (SSet {(''>='', ''2.4'')}) =
        Inr (Ret ({(''>='', ''2.2''), (''<<'', ''2.3'')} \<union> {(''>='', ''2.4'')}))
   \<and> SpecifierSet_init (SpecString ''>= 2.4'') = Inr {(''>='', ''2.4'')}
   \<and> (\<exists>R. SpecifierSet_intersection bytewise_compare sorted_list_of_set
              {(''>='', ''2.2''), (''<<'', ''2.3'')} (Str ''>= 2.4'') = Inr (Ret R))
   \<and> (\<forall>U. SpecifierSet_init (SpecString ''~~1.0'') \<noteq> Inr U)
   \<and> SpecifierSet_intersection bytewise_compare sorted_list_of_set
        {(''>='', ''2.2''), (''<<'', ''2.3'')} (Str ''~~1.0'') = Inl InvalidSpecifier
   \<and> valid_relation (relation (''>='', ''3.0'')) \<and> valid_relation (relation (''<<'', ''2.0''))
   \<and> (''>='', ''3.0'') \<noteq> (''<<'', ''2.0'')
   \<and> version (''>='', ''3.0'') \<noteq> version (''<<'', ''2.0'')
   \<and> Specifier_contains bytewise_compare (''>='', ''3.0'') (version (''<<'', ''2.0'')) = Inr False
   \<and> Specifier_contains bytewise_compare (''<<'', ''2.0'') (version (''>='', ''3.0'')) = Inr False
   \<and> bytewise_compare ''2.0'' ''3.0'' < 0 \<and> bytewise_compare ''3.0'' ''2.0'' > 0
   \<and> Specifier_intersection bytewise_compare (''>='', ''3.0'') (Spec (''<<'', ''2.0'')) =
        Inr (Ret {})
   \<and> SpecifierSet_intersection bytewise_compare sorted_list_of_set {(''>='', ''3.0'')}
        (SSet {(''<<'', ''2.0'')}) = Inr (Ret {})"
proof -
  have w: "wf_set {(''>='', ''2.2''), (''<<'', ''2.3'')}" "wf_set {(''>='', ''2.4'')}"
    by (simp_all add: wf_set_def wf_specifier_def valid_relation_def relation_def version_def
        version_char_def is_space_def)
  have p: "SpecifierSet_init (SpecString ''>= 2.4'') = Inr {(''>='', ''2.4'')}"
    by (simp add: regex_search_def is_space_def strip_def version_char_def)
  have q: "\<forall>U. SpecifierSet_init (SpecString ''~~1.0'') \<noteq> Inr U"
    by (simp add: malformed_set_string del: SpecifierSet_init.simps)
  have o: "bytewise_compare ''2.0'' ''3.0'' < 0" "bytewise_compare ''3.0'' ''2.0'' > 0"
    by (simp_all add: bytewise_compare_def)
  have h: "valid_relation (relation (''>='', ''3.0''))" "valid_relation (relation (''<<'', ''2.0''))"
    "(''>='', ''3.0'') \<noteq> (''<<'', ''2.0'')"
    "version (''>='', ''3.0'') \<noteq> version (''<<'', ''2.0'')"
    "Specifier_contains bytewise_compare (''>='', ''3.0'') (version (''<<'', ''2.0'')) = Inr False"
    "Specifier_contains bytewise_compare (''<<'', ''2.0'') (version (''>='', ''3.0'')) = Inr False"
    by (simp_all add: valid_relation_def relation_def version_def contains_simps
        bytewise_compare_def)
  note all = set_operations_errors [OF enumerates_sorted w,
      of bytewise_compare "''2.2.5''" "''>= 2.4''" "(''>='', ''2.2'')"
        "(''>='', ''3.0'')" "(''<<'', ''2.0'')"]
  note bad = set_operations_errors [OF enumerates_sorted w,
      of bytewise_compare "''2.2.5''" "''~~1.0''"]
  have i: "\<exists>R. SpecifierSet_intersection bytewise_compare sorted_list_of_set
              {(''>='', ''2.2''), (''<<'', ''2.3'')} (SSet {(''>='', ''2.4'')}) = Inr (Ret R)"
    using all [THEN conjunct1] by blast
  have u: "SpecifierSet_union {(''>='', ''2.2''), (''<<'', ''2.3'')} (SSet {(''>='', ''2.4'')}) =
        Inr (Ret ({(''>='', ''2.2''), (''<<'', ''2.3'')} \<union> {(''>='', ''2.4'')}))"
    by (rule all [THEN conjunct2, THEN conjunct1])
  have s: "\<exists>R. SpecifierSet_intersection bytewise_compare sorted_list_of_set
              {(''>='', ''2.2''), (''<<'', ''2.3'')} (Str ''>= 2.4'') = Inr (Ret R)"
    using all [THEN conjunct2, THEN conjunct2, THEN conjunct2, THEN conjunct1, rule_format, OF p]
    by blast
  have r: "SpecifierSet_intersection bytewise_compare sorted_list_of_set
        {(''>='', ''2.2''), (''<<'', ''2.3'')} (Str ''~~1.0'') = Inl InvalidSpecifier"
    using bad [THEN conjunct2, THEN conjunct2, THEN conjunct2, THEN conjunct2, THEN conjunct1] q
    by simp
  have g: "Specifier_intersection bytewise_compare (''>='', ''3.0'') (Spec (''<<'', ''2.0'')) =
        Inr (Ret {})
      \<and> SpecifierSet_intersection bytewise_compare sorted_list_of_set {(''>='', ''3.0'')}
        (SSet {(''<<'', ''2.0'')}) = Inr (Ret {})"
    using all [THEN conjunct2, THEN conjunct2, THEN conjunct2, THEN conjunct2, THEN conjunct2,
        THEN conjunct2, THEN conjunct2, THEN conjunct2, THEN conjunct2, THEN conjunct1] h
    by simp
  show ?thesis
    using enumerates_sorted w i u p s q r h o g by simp
qed

subsection \<open>The string form and back\<close>

lemma split_no_separator:
  assumes "sep \<notin> set x"
  shows "split sep x = [x]"
  using assms by (induction x) auto

lemma split_at_separator:
  assumes "sep \<notin> set x"
  shows "split sep (x @ sep # rest) = x # split sep rest"
  using assms by (induction x) auto

lemma split_join:
  assumes "\<forall>x \<in> set xs. sep \<notin> set x" and "xs \<noteq> []"
  shows "split sep (join [sep] xs) = xs"
  using assms
proof (induction "[sep]" xs rule: join.induct)
  case 1
  then show ?case by simp
next
  case (2 x)
  then show ?case by (simp add: split_no_separator)
next
  case (3 x y ys)
  then show ?case by (simp add: split_at_separator)
qed

lemma dropWhile_none:
  assumes "\<forall>c \<in> set s. \<not> P c"
  shows "dropWhile P s = s"
  using assms by (cases s) simp_all

lemma regex_search_canonical:
  assumes "valid_relation rel" and "list_all version_char ver"
  shows "regex_search (rel @ ver) = Some (rel, ver)"
proof -
  have ns: "dropWhile is_space ver = ver"
    using version_no_space [OF assms(2)] by (simp add: dropWhile_none)
  have tw: "takeWhile version_char ver = ver" and dw: "dropWhile version_char ver = []"
    using assms(2) by (simp_all add: list_all_iff)
  from assms(1) consider "rel = ''<<''" | "rel = ''<=''" | "rel = ''=''" | "rel = ''>=''" | "rel = ''>>''"
    unfolding valid_relation_def by blast
  then show ?thesis
    by cases (simp_all add: regex_search_def is_space_def ns tw dw)
qed

lemma canonical_no_space:
  assumes "valid_relation rel" and "list_all version_char ver"
  shows "\<forall>c \<in> set (rel @ ver). \<not> is_space c \<and> c \<noteq> CHR '',''"
  using valid_relation_no_space [OF assms(1)] version_no_space [OF assms(2)] by auto

lemma canonical_init:
  assumes "valid_relation rel" and "list_all version_char ver"
  shows "Specifier_init (Str (rel @ ver)) = Inr (rel, ver)"
proof -
  have sr: "strip rel = rel"
    using valid_relation_no_space [OF assms(1)] by (simp add: strip_no_space)
  have sv: "strip ver = ver"
    using version_no_space [OF assms(2)] by (simp add: strip_no_space)
  show ?thesis
    unfolding Specifier_init.simps regex_search_canonical [OF assms] by (simp add: sr sv)
qed

lemma canonical_token:
  assumes "wf_specifier s"
  shows "Specifier_init (Str (Specifier_str s)) = Inr s"
    and "strip (Specifier_str s) = Specifier_str s"
    and "Specifier_str s \<noteq> []"
    and "CHR '','' \<notin> set (Specifier_str s)"
proof -
  obtain rel ver where s: "s = (rel, ver)" by (cases s)
  have v: "valid_relation rel" and c: "list_all version_char ver"
    using assms by (simp_all add: s wf_specifier_def relation_def version_def)
  have str: "Specifier_str (rel, ver) = rel @ ver"
    by (simp add: Specifier_str_def relation_def version_def)
  note ns = canonical_no_space [OF v c]
  have "Specifier_init (Str (rel @ ver)) = Inr (rel, ver)"
    by (rule canonical_init [OF v c])
  then show "Specifier_init (Str (Specifier_str s)) = Inr s"
    unfolding s str .
  have "strip (rel @ ver) = rel @ ver"
    by (rule strip_no_space) (use ns in blast)
  then show "strip (Specifier_str s) = Specifier_str s"
    unfolding s str .
  have "rel \<noteq> []"
    using v by (auto simp add: valid_relation_def)
  then have "rel @ ver \<noteq> []"
    by simp
  then show "Specifier_str s \<noteq> []"
    unfolding s str .
  have "CHR '','' \<notin> set (rel @ ver)"
    using ns by blast
  then show "CHR '','' \<notin> set (Specifier_str s)"
    unfolding s str .
qed

lemma parse_canonical_tokens:
  assumes "\<forall>t \<in> set ts. \<exists>s \<in> A. t = Specifier_str s" and "\<forall>s \<in> A. wf_specifier s"
  shows "parse_each (map Str ts) P = Inr (P \<union> {s \<in> A. Specifier_str s \<in> set ts})"
  using assms(1)
proof (induction ts arbitrary: P)
  case Nil
  then show ?case by simp
next
  case (Cons t ts)
  then obtain s0 where s0: "s0 \<in> A" "t = Specifier_str s0" by auto
  have init: "Specifier_init (Str t) = Inr s0"
    using canonical_token(1) [of s0] s0 assms(2) by simp
  have only: "{s \<in> A. Specifier_str s = t} = {s0}"
  proof -
    have "s = s0" if "s \<in> A" "Specifier_str s = t" for s
      using canonical_token(1) [of s] that assms(2) init by simp
    with s0 show ?thesis by auto
  qed
  have "parse_each (map Str (t # ts)) P = parse_each (map Str ts) (insert s0 P)"
    using init by (simp del: Specifier_init.simps)
  also have "\<dots> = Inr (insert s0 P \<union> {s \<in> A. Specifier_str s \<in> set ts})"
    using Cons by simp
  also have "insert s0 P \<union> {s \<in> A. Specifier_str s \<in> set ts} =
      P \<union> {s \<in> A. Specifier_str s \<in> set (t # ts)}"
    using only by auto
  finally show ?case .
qed

lemma reparse_string:
  assumes "enumerates ord" and "wf_set S"
  shows "SpecifierSet_init (SpecString (SpecifierSet_str ord S)) = Inr S"
proof -
  have fin: "finite S" and wf: "\<forall>s \<in> S. wf_specifier s"
    using assms(2) by (simp_all add: wf_set_def)
  have members: "set (ord S) = S"
    using assms(1) fin by (simp add: enumerates_def)
  define ts where "ts = sort (map Specifier_str (ord S))"
  have set_ts: "set ts = Specifier_str ` S"
    by (simp add: ts_def members)
  have tokens: "\<forall>t \<in> set ts. strip t = t \<and> t \<noteq> [] \<and> CHR '','' \<notin> set t"
    using set_ts wf canonical_token(2-4) by auto
  have pieces: "filter (\<lambda>s. strip s \<noteq> []) (split CHR '','' (join '','' ts)) = ts"
  proof (cases "ts = []")
    case True
    then show ?thesis by (simp add: strip_def)
  next
    case False
    then have "split CHR '','' (join '','' ts) = ts"
      using tokens by (simp add: split_join)
    then show ?thesis
      using tokens by (simp add: filter_id_conv)
  qed
  have strips: "map (\<lambda>s. Str (strip s)) ts = map Str ts"
    using tokens by simp
  have "SpecifierSet_init (SpecString (SpecifierSet_str ord S)) =
      parse_each (map (\<lambda>s. Str (strip s))
        (filter (\<lambda>s. strip s \<noteq> []) (split CHR '','' (join '','' ts)))) {}"
    by (simp only: SpecifierSet_init.simps SpecifierSet_str_def ts_def)
  also have "\<dots> = parse_each (map Str ts) {}"
    by (simp only: pieces strips)
  also have "\<dots> = Inr ({} \<union> {s \<in> S. Specifier_str s \<in> set ts})"
    by (rule parse_canonical_tokens) (use set_ts wf in auto)
  also have "{} \<union> {s \<in> S. Specifier_str s \<in> set ts} = S"
    using set_ts by auto
  finally show ?thesis .
qed

text \<open>
  C9. Parsing the string form of a well-formed set gives the set back: the constructor returns
  a set that \<open>__eq__\<close> finds equal to the original, and the original compares equal to its
  own string form. The order of the members in the string plays no part.
\<close>

theorem string_form_reparses:
  assumes "enumerates ord" and "wf_set S"
  shows "(\<exists>T. SpecifierSet_init (SpecString (SpecifierSet_str ord S)) = Inr T
            \<and> SpecifierSet_eq T (SSet S) = Inr (Ret True))
       \<and> SpecifierSet_eq S (Str (SpecifierSet_str ord S)) = Inr (Ret True)"
  using reparse_string [OF assms]
  by (simp add: SpecifierSet_eq_string SpecifierSet_eq_def and_then_def del: SpecifierSet_init.simps)

lemma example_string:
  "SpecifierSet_str sorted_list_of_set {(''>='', ''2.2''), (''<<'', ''2.3'')} = ''<<2.3,>=2.2''"
  by (simp add: SpecifierSet_str_def Specifier_str_def relation_def version_def)

theorem string_form_reparses_witness:
  "enumerates sorted_list_of_set \<and> wf_set {(''>='', ''2.2''), (''<<'', ''2.3'')}
   \<and> (\<exists>T. SpecifierSet_init (SpecString (SpecifierSet_str sorted_list_of_set
               {(''>='', ''2.2''), (''<<'', ''2.3'')})) = Inr T
          \<and> SpecifierSet_eq T (SSet {(''>='', ''2.2''), (''<<'', ''2.3'')}) = Inr (Ret True))
   \<and> SpecifierSet_eq {(''>='', ''2.2''), (''<<'', ''2.3'')}
         (Str (SpecifierSet_str sorted_list_of_set {(''>='', ''2.2''), (''<<'', ''2.3'')})) =
       Inr (Ret True)"
proof -
  have w: "wf_set {(''>='', ''2.2''), (''<<'', ''2.3'')}"
    by (simp add: wf_set_def wf_specifier_def valid_relation_def relation_def version_def
        version_char_def is_space_def)
  show ?thesis
    using string_form_reparses [OF enumerates_sorted w] enumerates_sorted w
    by blast
qed

subsection \<open>The scan and the pattern agree\<close>

lemma match_relation_prefix:
  assumes "match_relation s = Some (rel, rest)"
  shows "s = rel @ rest"
proof -
  have two: "take 2 s = r \<Longrightarrow> s = r @ drop 2 s" for r
    by (metis append_take_drop_id)
  have one: "take 1 s = r \<Longrightarrow> s = r @ drop 1 s" for r
    by (metis append_take_drop_id)
  show ?thesis
    using assms two one by (auto split: if_splits)
qed

lemma match_relation_canonical:
  assumes "valid_relation rel"
  shows "match_relation (rel @ rest) = Some (rel, rest)"
  using assms unfolding valid_relation_def by auto

lemma version_char_not_space: "version_char c \<Longrightarrow> \<not> is_space c"
  by (simp add: version_char_def)

lemma search_matches:
  assumes "regex_search spec = Some (rel, ver)"
  shows "regex_matches spec rel ver"
proof -
  from assms obtain rest where m: "match_relation (dropWhile is_space spec) = Some (rel, rest)"
    and v: "ver = takeWhile version_char (dropWhile is_space rest)"
    and t: "list_all is_space (dropWhile version_char (dropWhile is_space rest))"
    by (auto simp add: regex_search_def Let_def simp del: match_relation.simps
        split: option.splits if_splits)
  define ws1 where "ws1 = takeWhile is_space spec"
  define ws2 where "ws2 = takeWhile is_space rest"
  define ws3 where "ws3 = dropWhile version_char (dropWhile is_space rest)"
  have "spec = ws1 @ dropWhile is_space spec"
    by (simp add: ws1_def)
  also have "dropWhile is_space spec = rel @ rest"
    using m by (rule match_relation_prefix)
  also have "rest = ws2 @ dropWhile is_space rest"
    by (simp add: ws2_def)
  also have "dropWhile is_space rest = ver @ ws3"
    by (simp add: v ws3_def)
  finally have "spec = ws1 @ rel @ ws2 @ ver @ ws3" .
  moreover have "list_all is_space ws1" "list_all is_space ws2"
    by (auto simp add: ws1_def ws2_def list_all_iff dest: set_takeWhileD)
  moreover have "list_all version_char ver"
    by (auto simp add: v list_all_iff dest: set_takeWhileD)
  moreover have "valid_relation rel"
    using m by (rule match_relation_valid)
  ultimately show ?thesis
    using t unfolding regex_matches_def ws3_def [symmetric] by blast
qed

lemma matches_search:
  assumes "regex_matches spec rel ver"
  shows "regex_search spec = Some (rel, ver)"
proof -
  from assms obtain ws1 ws2 ws3 where spec: "spec = ws1 @ rel @ ws2 @ ver @ ws3"
    and s1: "list_all is_space ws1" and r: "valid_relation rel" and s2: "list_all is_space ws2"
    and v: "list_all version_char ver" and s3: "list_all is_space ws3"
    unfolding regex_matches_def by blast
  have rel_head: "rel \<noteq> []" "\<not> is_space (hd rel)"
    using r by (auto simp add: valid_relation_def is_space_def)
  have "dropWhile is_space spec = dropWhile is_space (rel @ ws2 @ ver @ ws3)"
    unfolding spec using s1 by (simp add: dropWhile_append2 list_all_iff)
  also have "\<dots> = rel @ ws2 @ ver @ ws3"
    using rel_head by (cases rel) simp_all
  finally have m: "match_relation (dropWhile is_space spec) = Some (rel, ws2 @ ver @ ws3)"
    using match_relation_canonical [OF r] by (simp del: match_relation.simps)
  have d2: "dropWhile is_space (ws2 @ ver @ ws3) = dropWhile is_space (ver @ ws3)"
    using s2 by (simp add: dropWhile_append2 list_all_iff)
  have no3: "takeWhile version_char ws3 = []" "dropWhile version_char ws3 = ws3"
    using s3 version_char_not_space by (cases ws3; auto)+
  have tw: "takeWhile version_char (ver @ ws3) = ver"
    using v no3 by (simp add: takeWhile_append2 list_all_iff)
  have dw: "dropWhile version_char (ver @ ws3) = ws3"
    using v no3 by (simp add: dropWhile_append2 list_all_iff)
  show ?thesis
  proof (cases ver)
    case Nil
    have e: "dropWhile is_space ws3 = []"
      using s3 by (simp add: list_all_iff)
    show ?thesis
      using m d2 Nil by (simp add: regex_search_def e del: match_relation.simps)
  next
    case (Cons c cs)
    then have "\<not> is_space c"
      using v version_char_not_space by simp
    then have "dropWhile is_space (ver @ ws3) = ver @ ws3"
      using Cons by simp
    then show ?thesis
      using m d2 tw dw s3 by (simp add: regex_search_def del: match_relation.simps)
  qed
qed

lemma regex_search_iff: "regex_search spec = Some (rel, ver) \<longleftrightarrow> regex_matches spec rel ver"
  using search_matches matches_search by blast

end
